theory Spec2Isabelle
  imports Main "HOL-Library.Word"
begin

unbundle bit_operations_syntax

chapter \<open>Pipeline manager and semaphore handler of the gating scheduler\<close>

text \<open>
  A shallow embedding of \<^verbatim>\<open>zuul/zk/semaphore.py\<close> and of the parts of
  \<^verbatim>\<open>zuul/manager/__init__.py\<close> that decide the properties stated below.
  Every definition names the source function it follows. State that the Python code
  mutates in place is passed explicitly and returned; an exception is a value
  \<open>Inl e\<close> of a sum type. A Python name with a leading underscore is written with a
  prime at its end: \<open>max_count'\<close> is \<^verbatim>\<open>_max_count\<close>.
\<close>

section \<open>Python values\<close>

text \<open>
  A Python \<^verbatim>\<open>str\<close> is a sequence of Unicode code points (numbers below
  \<open>0x110000\<close>, the surrogates \<open>0xD800..0xDFFF\<close> included); \<^verbatim>\<open>bytes\<close>
  is a sequence of 8-bit characters. \<open>py\<close> embeds an ASCII literal.
\<close>

type_synonym pystr = "nat list"
type_synonym bytes = "char list"

abbreviation (input) py :: "string \<Rightarrow> pystr" where
  "py s \<equiv> map of_char s"

definition valid_codepoint :: "nat \<Rightarrow> bool" where
  "valid_codepoint c = (c < 0x110000)"

definition valid_str :: "pystr \<Rightarrow> bool" where
  "valid_str s = list_all valid_codepoint s"

datatype py_error =
    UnicodeEncodeError
  | UnicodeDecodeError
  | BadHolderData
  | NoNodeError
  | BadVersionError
  | PyException

subsection \<open>\<^verbatim>\<open>str.encode("utf8")\<close> and \<^verbatim>\<open>bytes.decode("utf8")\<close>\<close>

text \<open>
  The strict UTF-8 codec of the Python runtime: surrogates are refused in both
  directions, and so are overlong forms and values above \<open>0x10FFFF\<close> when decoding.
\<close>

definition utf8_char :: "nat \<Rightarrow> py_error + bytes" where
  "utf8_char c =
     (if c < 0x80 then Inr [char_of c]
      else if c < 0x800 then Inr [char_of (0xC0 + c div 64), char_of (0x80 + c mod 64)]
      else if c < 0x10000 then
        (if 0xD800 \<le> c \<and> c \<le> 0xDFFF then Inl UnicodeEncodeError
         else Inr [char_of (0xE0 + c div 4096), char_of (0x80 + c div 64 mod 64),
                   char_of (0x80 + c mod 64)])
      else if c < 0x110000 then
        Inr [char_of (0xF0 + c div 262144), char_of (0x80 + c div 4096 mod 64),
             char_of (0x80 + c div 64 mod 64), char_of (0x80 + c mod 64)]
      else Inl UnicodeEncodeError)"

fun encode_utf8 :: "pystr \<Rightarrow> py_error + bytes" where
  "encode_utf8 [] = Inr []"
| "encode_utf8 (c # cs) =
     (case utf8_char c of
        Inl e \<Rightarrow> Inl e
      | Inr bs \<Rightarrow> (case encode_utf8 cs of Inl e \<Rightarrow> Inl e | Inr rest \<Rightarrow> Inr (bs @ rest)))"

definition is_cont :: "char \<Rightarrow> bool" where
  "is_cont c = (0x80 \<le> (of_char c :: nat) \<and> (of_char c :: nat) \<le> 0xBF)"

definition cont_val :: "char \<Rightarrow> nat" where
  "cont_val c = of_char c - 0x80"

fun decode_utf8 :: "bytes \<Rightarrow> py_error + pystr" where
  "decode_utf8 [] = Inr []"
| "decode_utf8 (c0 # bs) =
     (let b0 = (of_char c0 :: nat) in
      if b0 < 0x80 then
        (case decode_utf8 bs of Inl e \<Rightarrow> Inl e | Inr s \<Rightarrow> Inr (b0 # s))
      else if 0xC2 \<le> b0 \<and> b0 \<le> 0xDF then
        (case bs of
           c1 # bs1 \<Rightarrow>
             if is_cont c1 then
               (case decode_utf8 bs1 of
                  Inl e \<Rightarrow> Inl e
                | Inr s \<Rightarrow> Inr (((b0 - 0xC0) * 64 + cont_val c1) # s))
             else Inl UnicodeDecodeError
         | _ \<Rightarrow> Inl UnicodeDecodeError)
      else if 0xE0 \<le> b0 \<and> b0 \<le> 0xEF then
        (case bs of
           c1 # c2 # bs2 \<Rightarrow>
             if is_cont c1 \<and> is_cont c2
                \<and> (if b0 = 0xE0 then 0xA0 \<le> (of_char c1 :: nat) else True)
                \<and> (if b0 = 0xED then (of_char c1 :: nat) \<le> 0x9F else True) then
               (case decode_utf8 bs2 of
                  Inl e \<Rightarrow> Inl e
                | Inr s \<Rightarrow> Inr ((((b0 - 0xE0) * 64 + cont_val c1) * 64 + cont_val c2) # s))
             else Inl UnicodeDecodeError
         | _ \<Rightarrow> Inl UnicodeDecodeError)
      else if 0xF0 \<le> b0 \<and> b0 \<le> 0xF4 then
        (case bs of
           c1 # c2 # c3 # bs3 \<Rightarrow>
             if is_cont c1 \<and> is_cont c2 \<and> is_cont c3
                \<and> (if b0 = 0xF0 then 0x90 \<le> (of_char c1 :: nat) else True)
                \<and> (if b0 = 0xF4 then (of_char c1 :: nat) \<le> 0x8F else True) then
               (case decode_utf8 bs3 of
                  Inl e \<Rightarrow> Inl e
                | Inr s \<Rightarrow>
                    Inr (((((b0 - 0xF0) * 64 + cont_val c1) * 64 + cont_val c2) * 64
                          + cont_val c3) # s))
             else Inl UnicodeDecodeError
         | _ \<Rightarrow> Inl UnicodeDecodeError)
      else Inl UnicodeDecodeError)"

subsection \<open>\<^verbatim>\<open>json.dumps\<close> on a list of strings\<close>

text \<open>
  \<^verbatim>\<open>json.dumps(holders)\<close> with the default options (\<^verbatim>\<open>ensure_ascii=True\<close>,
  separator \<^verbatim>\<open>", "\<close>): each string is written between double quotes by
  \<^verbatim>\<open>encode_basestring_ascii\<close>, which escapes the backslash, the double quote and
  every code point outside \<open>0x20..0x7E\<close>; a code point above \<open>0xFFFF\<close> becomes a
  pair of \<^verbatim>\<open>\uXXXX\<close> surrogate escapes.
\<close>

definition hexdigit :: "nat \<Rightarrow> nat" where
  "hexdigit d = (if d < 10 then 48 + d else 87 + d)"

definition hex4 :: "nat \<Rightarrow> pystr" where
  "hex4 n = [hexdigit (n div 4096 mod 16), hexdigit (n div 256 mod 16),
             hexdigit (n div 16 mod 16), hexdigit (n mod 16)]"

definition escape_char :: "nat \<Rightarrow> pystr" where
  "escape_char c =
     (if c = 92 then [92, 92]
      else if c = 34 then [92, 34]
      else if c = 8 then [92, 98]
      else if c = 12 then [92, 102]
      else if c = 10 then [92, 110]
      else if c = 13 then [92, 114]
      else if c = 9 then [92, 116]
      else if 32 \<le> c \<and> c \<le> 126 then [c]
      else if c < 0x10000 then 92 # 117 # hex4 c
      else
        (let n = c - 0x10000;
             s1 = 0xD800 OR (drop_bit 10 n AND 0x3FF);
             s2 = 0xDC00 OR (n AND 0x3FF)
         in 92 # 117 # hex4 s1 @ 92 # 117 # hex4 s2))"

definition encode_basestring_ascii :: "pystr \<Rightarrow> pystr" where
  "encode_basestring_ascii s = 34 # concat (map escape_char s) @ [34]"

fun join_items :: "pystr list \<Rightarrow> pystr" where
  "join_items [] = []"
| "join_items [x] = x"
| "join_items (x # y # r) = x @ [44, 32] @ join_items (y # r)"

definition json_dumps :: "pystr list \<Rightarrow> pystr" where
  "json_dumps hs = 91 # join_items (map encode_basestring_ascii hs) @ [93]"

subsection \<open>\<^verbatim>\<open>json.loads\<close> on the text of a list of strings\<close>

text \<open>
  The decoder follows \<^verbatim>\<open>json.decoder\<close> (\<^verbatim>\<open>JSONArray\<close>,
  \<^verbatim>\<open>py_scanstring\<close> in strict mode) on the fragment the handler writes: an array
  whose elements are strings. A text on which \<^verbatim>\<open>json.loads\<close> raises, or gives
  anything but a list of strings, is \<open>Inl BadHolderData\<close>: the handler is the only
  writer of these nodes and never stores such data. In a string, a \<^verbatim>\<open>\uXXXX\<close>
  escape of a high surrogate directly followed by the escape of a low surrogate is read as
  the one code point the pair stands for.
\<close>

definition is_ws :: "nat \<Rightarrow> bool" where
  "is_ws c = (c = 32 \<or> c = 9 \<or> c = 10 \<or> c = 13)"

definition skip_ws :: "pystr \<Rightarrow> pystr" where
  "skip_ws s = dropWhile is_ws s"

definition hexval :: "nat \<Rightarrow> nat option" where
  "hexval c =
     (if 48 \<le> c \<and> c \<le> 57 then Some (c - 48)
      else if 97 \<le> c \<and> c \<le> 102 then Some (c - 87)
      else if 65 \<le> c \<and> c \<le> 70 then Some (c - 55)
      else None)"

definition decode_uXXXX :: "pystr \<Rightarrow> nat option" where
  "decode_uXXXX s =
     (case s of
        a # b # c # d # _ \<Rightarrow>
          (case (hexval a, hexval b, hexval c, hexval d) of
             (Some x, Some y, Some z, Some w) \<Rightarrow> Some (((x * 16 + y) * 16 + z) * 16 + w)
           | _ \<Rightarrow> None)
      | _ \<Rightarrow> None)"

definition backslash :: "nat \<Rightarrow> nat option" where
  "backslash e =
     (if e = 34 then Some 34
      else if e = 92 then Some 92
      else if e = 47 then Some 47
      else if e = 98 then Some 8
      else if e = 102 then Some 12
      else if e = 110 then Some 10
      else if e = 114 then Some 13
      else if e = 116 then Some 9
      else None)"

function scanstring :: "pystr \<Rightarrow> pystr \<Rightarrow> py_error + (pystr \<times> pystr)" where
  "scanstring acc [] = Inl BadHolderData"
| "scanstring acc (c # cs) =
     (if c = 34 then Inr (acc, cs)
      else if c = 92 then
        (case cs of
           [] \<Rightarrow> Inl BadHolderData
         | e # es \<Rightarrow>
             if e = 117 then
               (case decode_uXXXX es of
                  None \<Rightarrow> Inl BadHolderData
                | Some uni \<Rightarrow>
                    if 0xD800 \<le> uni \<and> uni \<le> 0xDBFF \<and> take 2 (drop 4 es) = [92, 117] then
                      (case decode_uXXXX (drop 6 es) of
                         None \<Rightarrow> Inl BadHolderData
                       | Some uni2 \<Rightarrow>
                           if 0xDC00 \<le> uni2 \<and> uni2 \<le> 0xDFFF then
                             scanstring
                               (acc @ [0x10000 + (push_bit 10 (uni - 0xD800) OR (uni2 - 0xDC00))])
                               (drop 10 es)
                           else scanstring (acc @ [uni]) (drop 4 es))
                    else scanstring (acc @ [uni]) (drop 4 es))
             else
               (case backslash e of
                  None \<Rightarrow> Inl BadHolderData
                | Some ch \<Rightarrow> scanstring (acc @ [ch]) es))
      else if c < 32 then Inl BadHolderData
      else scanstring (acc @ [c]) cs)"
  by pat_completeness auto
termination
  by (relation "measure (\<lambda>(acc, s). length s)") auto

lemma scanstring_shorter:
  "scanstring acc s = Inr (v, r) \<Longrightarrow> length r < length s"
proof (induction acc s rule: scanstring.induct)
  case (1 acc)
  then show ?case by simp
next
  case (2 acc c cs)
  show ?case
  proof (cases "c = 34")
    case True
    with "2.prems" show ?thesis by simp
  next
    case c34: False
    show ?thesis
    proof (cases "c = 92")
      case False
      with c34 "2.prems" have "\<not> c < 32" and "scanstring (acc @ [c]) cs = Inr (v, r)"
        by (auto split: if_splits)
      with "2.IH"(5) c34 False show ?thesis by fastforce
    next
      case c92: True
      show ?thesis
      proof (cases cs)
        case Nil
        with c92 "2.prems" show ?thesis by simp
      next
        case (Cons e es)
        show ?thesis
        proof (cases "e = 117")
          case False
          with c92 Cons "2.prems" obtain ch where
            "backslash e = Some ch" "scanstring (acc @ [ch]) es = Inr (v, r)"
            by (auto split: option.splits)
          with "2.IH"(4)[OF c34 c92 Cons False] Cons show ?thesis by fastforce
        next
          case e117: True
          with c92 Cons "2.prems" obtain uni where uni: "decode_uXXXX es = Some uni"
            by (auto split: option.splits)
          let ?pair = "0xD800 \<le> uni \<and> uni \<le> 0xDBFF \<and> take 2 (drop 4 es) = [92, 117]"
          show ?thesis
          proof (cases ?pair)
            case False
            with c92 Cons e117 uni "2.prems"
            have "scanstring (acc @ [uni]) (drop 4 es) = Inr (v, r)"
              by (auto split: if_splits)
            with "2.IH"(3)[OF c34 c92 Cons e117 uni False] Cons
            show ?thesis by fastforce
          next
            case True
            with c92 Cons e117 uni "2.prems" obtain uni2 where
              uni2: "decode_uXXXX (drop 6 es) = Some uni2"
              by (auto split: option.splits)
            show ?thesis
            proof (cases "0xDC00 \<le> uni2 \<and> uni2 \<le> 0xDFFF")
              case low: True
              with c92 Cons e117 uni uni2 True "2.prems"
              have "scanstring
                      (acc @ [0x10000 + (push_bit 10 (uni - 0xD800) OR (uni2 - 0xDC00))])
                      (drop 10 es) = Inr (v, r)"
                by (auto split: if_splits)
              with "2.IH"(1)[OF c34 c92 Cons e117 uni True uni2 low] Cons
              show ?thesis by fastforce
            next
              case nolow: False
              with c92 Cons e117 uni uni2 True "2.prems"
              have "scanstring (acc @ [uni]) (drop 4 es) = Inr (v, r)"
                by (auto split: if_splits)
              with "2.IH"(2)[OF c34 c92 Cons e117 uni True uni2 nolow] Cons
              show ?thesis by fastforce
            qed
          qed
        qed
      qed
    qed
  qed
qed

lemma skip_ws_length: "length (skip_ws s) \<le> length s"
  by (simp add: skip_ws_def length_dropWhile_le)

function parse_items :: "pystr list \<Rightarrow> pystr \<Rightarrow> py_error + (pystr list \<times> pystr)" where
  "parse_items acc [] = Inl BadHolderData"
| "parse_items acc (c # cs) =
     (if c = 34 then
        (case scanstring [] cs of
           Inl e \<Rightarrow> Inl e
         | Inr (s, r) \<Rightarrow>
             (case skip_ws r of
                [] \<Rightarrow> Inl BadHolderData
              | d # r' \<Rightarrow>
                  if d = 93 then Inr (acc @ [s], r')
                  else if d = 44 then parse_items (acc @ [s]) (skip_ws r')
                  else Inl BadHolderData))
      else Inl BadHolderData)"
  by pat_completeness auto
termination
proof (relation "measure (\<lambda>(acc, s). length s)", goal_cases)
  case 1
  show ?case by simp
next
  case (2 acc c cs x s r d r')
  from 2 have "length r < length cs"
    using scanstring_shorter[of "[]" cs s r] by simp
  moreover have "length (d # r') \<le> length r"
    using skip_ws_length[of r] 2 by simp
  moreover have "length (skip_ws r') \<le> length r'"
    by (rule skip_ws_length)
  ultimately show ?case by simp
qed

definition json_loads :: "pystr \<Rightarrow> py_error + pystr list" where
  "json_loads s =
     (if take 1 s = [0xFEFF] then Inl BadHolderData
      else
        (case skip_ws s of
           [] \<Rightarrow> Inl BadHolderData
         | c # r \<Rightarrow>
             if c = 91 then
               (case skip_ws r of
                  [] \<Rightarrow> Inl BadHolderData
                | d # r' \<Rightarrow>
                    if d = 93 then (if skip_ws r' = [] then Inr [] else Inl BadHolderData)
                    else
                      (case parse_items [] (d # r') of
                         Inl e \<Rightarrow> Inl e
                       | Inr (vs, rest) \<Rightarrow>
                           if skip_ws rest = [] then Inr vs else Inl BadHolderData))
             else Inl BadHolderData))"

subsection \<open>Surrogates and ASCII text\<close>

text \<open>
  The high and the low surrogates; a string is \<open>pair_free\<close> when no high surrogate in
  it is directly followed by a low one (such a pair of code points is what the JSON
  decoder reads a pair of \<^verbatim>\<open>\uXXXX\<close> escapes as one code point for); \<open>ascii\<close>
  says that every code point of a string is below 128.
\<close>

definition is_high :: "nat \<Rightarrow> bool" where
  "is_high c = (0xD800 \<le> c \<and> c \<le> 0xDBFF)"

definition is_low :: "nat \<Rightarrow> bool" where
  "is_low c = (0xDC00 \<le> c \<and> c \<le> 0xDFFF)"

fun pair_free :: "pystr \<Rightarrow> bool" where
  "pair_free [] = True"
| "pair_free [c] = True"
| "pair_free (c # d # r) = (\<not> (is_high c \<and> is_low d) \<and> pair_free (d # r))"

definition ascii :: "pystr \<Rightarrow> bool" where
  "ascii s = list_all (\<lambda>c. c < 128) s"

section \<open>The semaphore handler (\<^verbatim>\<open>zuul/zk/semaphore.py\<close>)\<close>

subsection \<open>Serialisation of the holders list\<close>

text \<open>
  \<^verbatim>\<open>holdersFromData(data)\<close>: \<^verbatim>\<open>if not data: return []\<close>, else
  \<^verbatim>\<open>json.loads(data.decode("utf8"))\<close>. The data of a node is \<^verbatim>\<open>None\<close> or
  a byte string. \<^verbatim>\<open>holdersToData(holders)\<close> is
  \<^verbatim>\<open>json.dumps(holders).encode("utf8")\<close>.
\<close>

definition holdersFromData :: "bytes option \<Rightarrow> py_error + pystr list" where
  "holdersFromData data =
     (case data of
        None \<Rightarrow> Inr []
      | Some bs \<Rightarrow>
          if bs = [] then Inr []
          else (case decode_utf8 bs of Inl e \<Rightarrow> Inl e | Inr s \<Rightarrow> json_loads s))"

definition holdersToData :: "pystr list \<Rightarrow> py_error + bytes" where
  "holdersToData holders = encode_utf8 (json_dumps holders)"

subsection \<open>The coordination store\<close>

text \<open>
  The handler talks to ZooKeeper through a kazoo client. The store maps a path to the
  node's data and version. Other schedulers use the same store: \<open>pending\<close> lists what
  they do to it, one entry taken before each operation of this client (the empty list:
  nobody else writes any more). \<^verbatim>\<open>set(path, data, version)\<close> writes only if the
  node still has the version given, and raises \<^verbatim>\<open>BadVersionError\<close> otherwise;
  \<^verbatim>\<open>ensure_path\<close> creates a missing node with empty data. \<open>cas_log\<close>
  records the \<^verbatim>\<open>set\<close> calls of this client that succeeded (path, data written,
  version given), oldest first.
\<close>

type_synonym znodes = "pystr \<rightharpoonup> bytes option \<times> nat"

record zk_world =
  nodes :: znodes
  pending :: "(znodes \<Rightarrow> znodes) list"
  cas_log :: "(pystr \<times> bytes \<times> nat) list"

definition interfere :: "zk_world \<Rightarrow> zk_world" where
  "interfere w =
     (case pending w of
        [] \<Rightarrow> w
      | e # es \<Rightarrow> w\<lparr>nodes := e (nodes w), pending := es\<rparr>)"

definition zk_ensure_path :: "pystr \<Rightarrow> zk_world \<Rightarrow> zk_world" where
  "zk_ensure_path p w =
     (let w1 = interfere w in
      case nodes w1 p of
        None \<Rightarrow> w1\<lparr>nodes := (nodes w1)(p \<mapsto> (Some [], 0))\<rparr>
      | Some n \<Rightarrow> w1)"

definition zk_get :: "pystr \<Rightarrow> zk_world \<Rightarrow> (py_error + bytes option \<times> nat) \<times> zk_world" where
  "zk_get p w =
     (let w1 = interfere w in
      case nodes w1 p of
        None \<Rightarrow> (Inl NoNodeError, w1)
      | Some n \<Rightarrow> (Inr n, w1))"

definition zk_set :: "pystr \<Rightarrow> bytes \<Rightarrow> nat \<Rightarrow> zk_world \<Rightarrow> (py_error + unit) \<times> zk_world" where
  "zk_set p d v w =
     (let w1 = interfere w in
      case nodes w1 p of
        None \<Rightarrow> (Inl NoNodeError, w1)
      | Some (d0, v0) \<Rightarrow>
          if v0 = v then
            (Inr (), w1\<lparr>nodes := (nodes w1)(p \<mapsto> (Some d, v + 1)),
                         cas_log := cas_log w1 @ [(p, d, v)]\<rparr>)
          else (Inl BadVersionError, w1))"

subsection \<open>Configuration and arguments of the handler\<close>

text \<open>
  \<open>semaphore\<close> is the layout's semaphore definition (its \<^verbatim>\<open>max\<close>),
  \<open>job_semaphore\<close> the reference a job holds (\<^verbatim>\<open>job.semaphore\<close>, or
  \<^verbatim>\<open>None\<close>). Of the item the handler reads the \<^verbatim>\<open>uuid\<close>.
\<close>

record semaphore =
  sem_max :: int

record job_semaphore =
  sem_name :: pystr
  resources_first :: bool

record job =
  job_name :: pystr
  job_semaphore :: "job_semaphore option"

record semaphore_handler =
  layout_semaphores :: "pystr \<rightharpoonup> semaphore"
  tenant_root :: pystr

subsection \<open>\<^verbatim>\<open>urllib.parse.quote_plus\<close>\<close>

definition always_safe :: "nat \<Rightarrow> bool" where
  "always_safe b =
     ((65 \<le> b \<and> b \<le> 90) \<or> (97 \<le> b \<and> b \<le> 122) \<or> (48 \<le> b \<and> b \<le> 57)
      \<or> b = 95 \<or> b = 46 \<or> b = 45 \<or> b = 126)"

definition upper_hexdigit :: "nat \<Rightarrow> nat" where
  "upper_hexdigit d = (if d < 10 then 48 + d else 55 + d)"

definition quote_byte :: "char \<Rightarrow> pystr" where
  "quote_byte c =
     (let b = (of_char c :: nat) in
      if always_safe b then [b]
      else if b = 32 then [43]
      else [37, upper_hexdigit (b div 16), upper_hexdigit (b mod 16)])"

definition quote_plus :: "pystr \<Rightarrow> py_error + pystr" where
  "quote_plus s =
     (case encode_utf8 s of
        Inl e \<Rightarrow> Inl e
      | Inr bs \<Rightarrow> Inr (concat (map quote_byte bs)))"

subsection \<open>\<^verbatim>\<open>SemaphoreHandler\<close>\<close>

text \<open>\<^verbatim>\<open>_max_count(semaphore_name)\<close>: 1 for a name the layout does not define.\<close>

definition max_count' :: "semaphore_handler \<Rightarrow> pystr \<Rightarrow> int" where
  "max_count' sh semaphore_name =
     (case layout_semaphores sh semaphore_name of
        None \<Rightarrow> 1
      | Some s \<Rightarrow> sem_max s)"

definition getHolders ::
  "pystr \<Rightarrow> zk_world \<Rightarrow> (py_error + pystr list \<times> nat) \<times> zk_world" where
  "getHolders semaphore_path w =
     (case zk_get semaphore_path w of
        (Inl e, w1) \<Rightarrow> (Inl e, w1)
      | (Inr (d, v), w1) \<Rightarrow>
          (case holdersFromData d of
             Inl e \<Rightarrow> (Inl e, w1)
           | Inr hs \<Rightarrow> (Inr (hs, v), w1)))"

definition semaphore_path_of :: "semaphore_handler \<Rightarrow> pystr \<Rightarrow> py_error + pystr" where
  "semaphore_path_of sh semaphore_name =
     (case quote_plus semaphore_name of
        Inl e \<Rightarrow> Inl e
      | Inr semaphore_key \<Rightarrow> Inr (tenant_root sh @ py ''/'' @ semaphore_key))"

definition semaphore_handle_of :: "pystr \<Rightarrow> job \<Rightarrow> pystr" where
  "semaphore_handle_of item_uuid j = item_uuid @ py ''-'' @ job_name j"

text \<open>
  The \<^verbatim>\<open>while\<close> loop of \<^verbatim>\<open>acquire\<close> (lines 72 to 90), entered with the
  holders and the version last read.
\<close>

function acquire_loop ::
  "semaphore_handler \<Rightarrow> pystr \<Rightarrow> pystr \<Rightarrow> pystr \<Rightarrow> pystr list \<Rightarrow> nat \<Rightarrow> zk_world
     \<Rightarrow> (py_error + bool) \<times> zk_world" where
  "acquire_loop sh semaphore_path semaphore_handle semaphore_name semaphore_holders version w =
     (if int (length semaphore_holders) < max_count' sh semaphore_name then
        (case holdersToData (semaphore_holders @ [semaphore_handle]) of
           Inl e \<Rightarrow> (Inl e, w)
         | Inr d \<Rightarrow>
             (case zk_set semaphore_path d version w of
                (Inr u, w1) \<Rightarrow> (Inr True, w1)
              | (Inl e, w1) \<Rightarrow>
                  if e = BadVersionError then
                    (case getHolders semaphore_path w1 of
                       (Inl e2, w2) \<Rightarrow> (Inl e2, w2)
                     | (Inr (hs, v), w2) \<Rightarrow>
                         acquire_loop sh semaphore_path semaphore_handle semaphore_name hs v w2)
                  else (Inl e, w1)))
      else (Inr False, w))"
  by pat_completeness auto

lemma zk_set_bad_version:
  "zk_set p d v w = (Inl BadVersionError, w1) \<Longrightarrow>
     w1 = interfere w \<and> (\<exists>d0 v0. nodes w1 p = Some (d0, v0) \<and> v0 \<noteq> v)"
  by (auto simp: zk_set_def Let_def split: option.splits prod.splits if_splits)

lemma getHolders_read:
  "getHolders p w = (Inr (hs, v), w2) \<Longrightarrow>
     w2 = interfere w \<and> (\<exists>d. nodes w2 p = Some (d, v) \<and> holdersFromData d = Inr hs)"
  by (auto simp: getHolders_def zk_get_def Let_def split: option.splits prod.splits sum.splits)

lemma pending_interfere: "length (pending (interfere w)) = length (pending w) - 1"
  by (simp add: interfere_def split: list.splits)

lemma interfere_quiet: "pending w = [] \<Longrightarrow> interfere w = w"
  by (simp add: interfere_def)

text \<open>
  The loop ends: an attempt fails only after another client has written, which uses up
  an entry of \<open>pending\<close>, or on a stale version, which the next read replaces.
\<close>

termination acquire_loop
proof (relation "measure (\<lambda>(sh, p, h, n, hs, v, w).
         2 * length (pending w) + (if (\<exists>d. nodes w p = Some (d, v)) then 0 else 1))", goal_cases)
  case 1
  show ?case by simp
next
  case (2 sh p h n hs v w b x y a xa ya ba xb yb)
  from 2 have bad: "zk_set p b v w = (Inl BadVersionError, y)" by simp
  from 2 have rd: "getHolders p y = (Inr (xb, yb), ya)" by simp
  from zk_set_bad_version[OF bad] obtain d0 v0 where
    y: "y = interfere w" and n0: "nodes y p = Some (d0, v0)" and ne: "v0 \<noteq> v" by blast
  from getHolders_read[OF rd] obtain d1 where
    ya: "ya = interfere y" and n1: "nodes ya p = Some (d1, yb)" by blast
  show ?case
  proof (cases "pending w")
    case Nil
    then have "y = w" "ya = w" using y ya by (simp_all add: interfere_quiet)
    with n0 n1 ne Nil show ?thesis by auto
  next
    case (Cons e es)
    then have "length (pending ya) \<le> length es"
      using y ya by (simp add: pending_interfere)
    with n1 Cons show ?thesis by auto
  qed
qed

text \<open>
  \<^verbatim>\<open>acquire(item, job, request_resources)\<close>; of the item only the
  \<^verbatim>\<open>uuid\<close> is read. The result is the value returned (or the exception raised)
  and the store as the call leaves it.
\<close>

definition acquire ::
  "semaphore_handler \<Rightarrow> pystr \<Rightarrow> job \<Rightarrow> bool \<Rightarrow> zk_world \<Rightarrow> (py_error + bool) \<times> zk_world" where
  "acquire sh item_uuid j request_resources w =
     (case job_semaphore j of
        None \<Rightarrow> (Inr True, w)
      | Some js \<Rightarrow>
          if resources_first js \<and> request_resources then (Inr True, w)
          else
            (case semaphore_path_of sh (sem_name js) of
               Inl e \<Rightarrow> (Inl e, w)
             | Inr semaphore_path \<Rightarrow>
                 (let semaphore_handle = semaphore_handle_of item_uuid j;
                      w0 = zk_ensure_path semaphore_path w
                  in case getHolders semaphore_path w0 of
                       (Inl e, w1) \<Rightarrow> (Inl e, w1)
                     | (Inr (semaphore_holders, version), w1) \<Rightarrow>
                         if semaphore_handle \<in> set semaphore_holders then (Inr True, w1)
                         else acquire_loop sh semaphore_path semaphore_handle (sem_name js)
                                semaphore_holders version w1)))"

text \<open>
  \<^verbatim>\<open>release(item, job)\<close>: the loop removes the first occurrence of the handle and
  writes the list back, again under the version read. The read and the removal stand
  under \<^verbatim>\<open>except (ValueError, NoNodeError)\<close>: a missing node, data that cannot be
  decoded (\<^verbatim>\<open>UnicodeDecodeError\<close> and \<^verbatim>\<open>JSONDecodeError\<close> are
  \<^verbatim>\<open>ValueError\<close>s) and a missing handle are logged and end the call;
  \<^verbatim>\<open>BadVersionError\<close> repeats the loop.
\<close>

function release_loop ::
  "pystr \<Rightarrow> pystr \<Rightarrow> zk_world \<Rightarrow> (py_error + unit) \<times> zk_world" where
  "release_loop semaphore_path semaphore_handle w =
     (case getHolders semaphore_path w of
        (Inl e, w1) \<Rightarrow>
          if e = NoNodeError \<or> e = UnicodeDecodeError \<or> e = BadHolderData then (Inr (), w1)
          else (Inl e, w1)
      | (Inr (semaphore_holders, version), w1) \<Rightarrow>
          if semaphore_handle \<notin> set semaphore_holders then (Inr (), w1)
          else
            (case holdersToData (remove1 semaphore_handle semaphore_holders) of
               Inl e \<Rightarrow> (Inl e, w1)
             | Inr d \<Rightarrow>
                 (case zk_set semaphore_path d version w1 of
                    (Inr u, w2) \<Rightarrow> (Inr (), w2)
                  | (Inl e, w2) \<Rightarrow>
                      if e = BadVersionError then release_loop semaphore_path semaphore_handle w2
                      else (Inl e, w2))))"
  by pat_completeness auto
termination
proof (relation "measure (\<lambda>(p, h, w). length (pending w))", goal_cases)
  case 1
  show ?case by simp
next
  case (2 p h w x y a hs v d xa ya e)
  from 2 have rd: "getHolders p w = (Inr (hs, v), y)" by simp
  from 2 have bad: "zk_set p d v y = (Inl BadVersionError, ya)" by simp
  from getHolders_read[OF rd] obtain d1 where
    y: "y = interfere w" and n1: "nodes y p = Some (d1, v)" by blast
  from zk_set_bad_version[OF bad] obtain d0 v0 where
    ya: "ya = interfere y" and n0: "nodes ya p = Some (d0, v0)" and ne: "v0 \<noteq> v" by blast
  have "pending y \<noteq> []"
  proof
    assume "pending y = []"
    then have "ya = y" using ya by (simp add: interfere_quiet)
    with n0 n1 ne show False by simp
  qed
  then have "length (pending ya) < length (pending y)"
    using ya by (cases "pending y") (simp_all add: pending_interfere)
  moreover have "length (pending y) \<le> length (pending w)"
    using y by (simp add: pending_interfere)
  ultimately show ?case by simp
qed

definition release ::
  "semaphore_handler \<Rightarrow> pystr \<Rightarrow> job \<Rightarrow> zk_world \<Rightarrow> (py_error + unit) \<times> zk_world" where
  "release sh item_uuid j w =
     (case job_semaphore j of
        None \<Rightarrow> (Inr (), w)
      | Some js \<Rightarrow>
          (case semaphore_path_of sh (sem_name js) of
             Inl e \<Rightarrow> (Inl e, w)
           | Inr semaphore_path \<Rightarrow>
               release_loop semaphore_path (semaphore_handle_of item_uuid j) w))"

subsection \<open>A worked run: two clients and a semaphore of capacity two\<close>

text \<open>
  The data of the worked examples below: a tenant with the semaphore \<^verbatim>\<open>s\<close> of
  \<^verbatim>\<open>max\<close> 2, the job \<^verbatim>\<open>j\<close> of the item \<^verbatim>\<open>u\<close>, and a store in
  which another client writes the holder \<^verbatim>\<open>x\<close> between this client's read and
  its first \<^verbatim>\<open>set\<close>.
\<close>

definition ex_sem_name :: pystr where "ex_sem_name = py ''s''"
definition ex_path :: pystr where "ex_path = py ''/t/s''"
definition ex_handle :: pystr where "ex_handle = py ''u-j''"

definition ex_handler :: semaphore_handler where
  "ex_handler = \<lparr>layout_semaphores = [ex_sem_name \<mapsto> \<lparr>sem_max = 2\<rparr>], tenant_root = py ''/t''\<rparr>"

definition ex_js :: job_semaphore where
  "ex_js = \<lparr>sem_name = ex_sem_name, resources_first = False\<rparr>"

definition ex_job :: job where
  "ex_job = \<lparr>job_name = py ''j'', job_semaphore = Some ex_js\<rparr>"

definition ex_data_x :: bytes where
  "ex_data_x = [CHR 0x5B, CHR 0x22, CHR ''x'', CHR 0x22, CHR 0x5D]"

definition ex_data_u :: bytes where
  "ex_data_u = [CHR 0x5B, CHR 0x22, CHR ''u'', CHR ''-'', CHR ''j'', CHR 0x22, CHR 0x5D]"

definition ex_data_xu :: bytes where
  "ex_data_xu = [CHR 0x5B, CHR 0x22, CHR ''x'', CHR 0x22, CHR '','', CHR '' '',
                 CHR 0x22, CHR ''u'', CHR ''-'', CHR ''j'', CHR 0x22, CHR 0x5D]"

definition ex_overwrite :: "znodes \<Rightarrow> znodes" where
  "ex_overwrite n = n(ex_path \<mapsto> (Some ex_data_x, 1))"

definition ex_world :: zk_world where
  "ex_world = \<lparr>nodes = Map.empty, pending = [id, id, ex_overwrite], cas_log = []\<rparr>"

definition ex_world1 :: zk_world where
  "ex_world1 = \<lparr>nodes = [ex_path \<mapsto> (Some [], 0)], pending = [ex_overwrite], cas_log = []\<rparr>"

definition ex_world2 :: zk_world where
  "ex_world2 = \<lparr>nodes = [ex_path \<mapsto> (Some ex_data_x, 1)], pending = [], cas_log = []\<rparr>"

definition ex_world3 :: zk_world where
  "ex_world3 = \<lparr>nodes = [ex_path \<mapsto> (Some ex_data_xu, Suc (Suc 0))], pending = [],
                 cas_log = [(ex_path, ex_data_xu, 1)]\<rparr>"

text \<open>
  A job of the same item with the semaphore \<^verbatim>\<open>other\<close>, which the tenant does not
  define, on a store that nobody else writes: without the node of the semaphore, with
  the node as \<^verbatim>\<open>ensure_path\<close> makes it, with the handle of the job as the one
  holder, and with another holder \<^verbatim>\<open>x\<close>.
\<close>

definition ex_other_js :: job_semaphore where
  "ex_other_js = \<lparr>sem_name = py ''other'', resources_first = False\<rparr>"

definition ex_other_job :: job where
  "ex_other_job = \<lparr>job_name = py ''j'', job_semaphore = Some ex_other_js\<rparr>"

definition ex_other_path :: pystr where "ex_other_path = py ''/t/other''"

definition ex_free_world :: zk_world where
  "ex_free_world = \<lparr>nodes = Map.empty, pending = [], cas_log = []\<rparr>"

definition ex_free_world1 :: zk_world where
  "ex_free_world1 = \<lparr>nodes = [ex_other_path \<mapsto> (Some [], 0)], pending = [], cas_log = []\<rparr>"

definition ex_granted_world :: zk_world where
  "ex_granted_world = \<lparr>nodes = [ex_other_path \<mapsto> (Some ex_data_u, Suc 0)], pending = [],
                        cas_log = [(ex_other_path, ex_data_u, 0)]\<rparr>"

definition ex_held_world :: zk_world where
  "ex_held_world = \<lparr>nodes = [ex_other_path \<mapsto> (Some ex_data_x, 1)], pending = [], cas_log = []\<rparr>"

text \<open>
  Lists of holders for the serialisation: handles with a code point above
  \<open>0x7F\<close>, one above \<open>0xFFFF\<close>, a double quote, a high surrogate standing alone
  and the empty string; and the bytes \<^verbatim>\<open>["\ud83d\ude00"]\<close> that
  \<^verbatim>\<open>holdersToData\<close> writes for the string of the two surrogates
  \<open>0xD83D\<close>, \<open>0xDE00\<close>.
\<close>

definition ex_handles :: "pystr list" where
  "ex_handles = [py ''u-j'', [0xE9, 0x1F600, 34], [0xD83D], []]"

definition ex_pair_data :: bytes where
  "ex_pair_data =
     [CHR 0x5B, CHR 0x22, CHR 0x5C, CHR ''u'', CHR ''d'', CHR ''8'', CHR ''3'', CHR ''d'',
      CHR 0x5C, CHR ''u'', CHR ''d'', CHR ''e'', CHR ''0'', CHR ''0'', CHR 0x22, CHR 0x5D]"

section \<open>The pipeline manager (\<^verbatim>\<open>zuul/manager/__init__.py\<close>)\<close>

subsection \<open>Changes, items, queues and layouts\<close>

text \<open>
  The classes of \<^verbatim>\<open>zuul/model.py\<close> are not among the sources. A record holds the
  attributes the manager reads and writes; the answers of the query methods the manager
  calls on an item (\<^verbatim>\<open>getJobs()\<close>, \<^verbatim>\<open>didAllJobsSucceed()\<close>, ...) are
  carried by the item as fields, and the methods of collaborators are parameters
  (record \<open>env\<close> below).
\<close>

record project =
  project_name :: pystr
  canonical_name :: pystr
  connection_name :: pystr

text \<open>
  \<open>is_Change\<close>: the object is a \<^verbatim>\<open>model.Change\<close> (and so has
  \<^verbatim>\<open>needs_changes\<close>), not a bare ref, branch or tag.
\<close>

record change =
  cache_key :: pystr
  change_project :: project
  is_Change :: bool
  message :: pystr
  commit_needs_changes :: "pystr list"
  needs_changes :: "pystr list"
  needed_by_changes :: "pystr list"
  is_merged :: bool

record build_set =
  job_graph :: "job list option"
  bs_result :: "pystr option"

text \<open>
  Modelled from the spec: QueueItem (section 3 of the specification; the class is in
  \<^verbatim>\<open>zuul/model.py\<close>). \<open>item_queue\<close> is the back reference to the queue, by its
  identity. The fields \<open>ans_...\<close> are what the item's query methods return.
\<close>

record queue_item =
  uuid :: pystr
  item_change :: change
  item_queue :: nat
  live :: bool
  quiet :: bool
  enqueue_time :: "nat option"
  layout_uuid :: "pystr option"
  reported_enqueue :: bool
  warnings :: "pystr list"
  current_build_set :: build_set
  ans_getJobs :: "job list"
  ans_getConfigErrors :: "pystr list"
  ans_didMergerFail :: bool
  ans_wasDequeuedNeedingChange :: bool
  ans_cannotMergeBundle :: bool
  ans_isBundleFailing :: bool
  ans_didAllJobsSucceed :: bool

text \<open>A queue: its items from head to tail, and whether it is a dynamic queue.\<close>

record change_queue =
  queue :: "queue_item list"
  dynamic :: bool

record queue_config =
  allow_circular_dependencies :: bool

record project_pipeline_config =
  ppc_queue_name :: "pystr option"

record project_config =
  pc_queue_name :: "pystr option"
  pc_pipelines :: "pystr \<rightharpoonup> project_pipeline_config"

text \<open>
  Of a layout: its \<^verbatim>\<open>uuid\<close>, \<^verbatim>\<open>getAllProjectConfigs(name)\<close> and
  \<^verbatim>\<open>queues\<close>.
\<close>

record layout =
  l_uuid :: pystr
  getAllProjectConfigs :: "pystr \<Rightarrow> project_config list"
  l_queues :: "pystr \<rightharpoonup> queue_config"

record pipeline_state =
  disabled :: bool
  consecutive_failures :: int

text \<open>A reporter is known by its name. The pipeline's configuration does not change during a call.\<close>

type_synonym reporter = pystr

record pipeline =
  pipeline_name :: pystr
  tenant_layout :: layout
  enqueue_actions :: "reporter list"
  start_actions :: "reporter list"
  success_actions :: "reporter list"
  failure_actions :: "reporter list"
  merge_failure_actions :: "reporter list"
  no_jobs_actions :: "reporter list"
  dequeue_actions :: "reporter list"
  disabled_actions :: "reporter list"
  disable_at :: "int option"

text \<open>
  What the manager owns or reaches and may change: the queue objects (by identity) and
  the list of those that are in the pipeline, the pipeline state, the two caches, the
  coordination store, and the calls made to collaborators: \<open>reports\<close>
  (\<^verbatim>\<open>reporter.report(item)\<close>, with the item as it was then), \<open>sql_log\<close>
  (\<^verbatim>\<open>sql.reportBuildsetEnd(build_set, action, final)\<close>), \<open>launched\<close>
  (\<^verbatim>\<open>executor.execute\<close>, by item uuid and job name) and \<open>change_writes\<close>
  (\<^verbatim>\<open>source.setChangeAttributes(change, commit_needs_changes=...)\<close>, by cache key).
\<close>

record mstate =
  queue_objs :: "nat \<Rightarrow> change_queue"
  pipeline_queues :: "nat list"
  pstate :: pipeline_state
  layout_cache :: "pystr \<rightharpoonup> layout"
  change_cache :: "pystr \<rightharpoonup> change"
  zk :: zk_world
  reports :: "(reporter \<times> queue_item) list"
  sql_log :: "(build_set \<times> pystr \<times> bool) list"
  launched :: "(pystr \<times> pystr) list"
  change_writes :: "(pystr \<times> pystr list) list"
  uuids_used :: nat

text \<open>
  Modelled from the spec: \<^verbatim>\<open>Pipeline.getAllItems()\<close> (a pipeline is the aggregate
  of its queues): the items of the pipeline's queues, queue after queue.
\<close>

definition getAllItems :: "mstate \<Rightarrow> queue_item list" where
  "getAllItems st = concat (map (\<lambda>q. queue (queue_objs st q)) (pipeline_queues st))"

subsection \<open>\<^verbatim>\<open>_maintainCache\<close>\<close>

text \<open>
  The layout uuids in use are those of the items of the pipeline whose
  \<^verbatim>\<open>layout_uuid\<close> is truthy (neither \<^verbatim>\<open>None\<close> nor empty); the change keys
  in use are the \<^verbatim>\<open>needs_changes\<close> and \<^verbatim>\<open>needed_by_changes\<close> of the items
  whose change is a \<^verbatim>\<open>model.Change\<close>. Every other entry is deleted from the cache.
\<close>

definition active_layout_uuids :: "queue_item list \<Rightarrow> pystr set" where
  "active_layout_uuids items =
     set (concat (map (\<lambda>item. case layout_uuid item of
                                  None \<Rightarrow> []
                                | Some u \<Rightarrow> if u = [] then [] else [u]) items))"

definition referenced_change_keys :: "queue_item list \<Rightarrow> pystr set" where
  "referenced_change_keys items =
     set (concat (map (\<lambda>item. if is_Change (item_change item)
                               then needs_changes (item_change item)
                                    @ needed_by_changes (item_change item)
                               else []) items))"

definition maintainCache' :: "mstate \<Rightarrow> mstate" where
  "maintainCache' st =
     (let items = getAllItems st;
          unused_layouts = dom (layout_cache st) - active_layout_uuids items;
          st1 = st\<lparr>layout_cache := (\<lambda>uid. if uid \<in> unused_layouts then None
                                            else layout_cache st uid)\<rparr>;
          unused_keys = dom (change_cache st1) - referenced_change_keys items
      in st1\<lparr>change_cache := (\<lambda>k. if k \<in> unused_keys then None else change_cache st1 k)\<rparr>)"

subsection \<open>\<^verbatim>\<open>processQueue\<close>\<close>

text \<open>
  \<^verbatim>\<open>_processOneItem(item, nnfi)\<close> is taken as any function of the item, the nearest
  non-failing item and the state that returns the pair \<^verbatim>\<open>(changed, nnfi)\<close> and
  the new state, or raises. The outer loop walks the pipeline's list of queues as it is
  at each step (a Python \<^verbatim>\<open>for\<close> over a list reads it by position), the inner loop
  a copy of the queue's items taken when the queue is reached. The outer loop need not
  end for an arbitrary \<^verbatim>\<open>_processOneItem\<close>, so its result is an option.
\<close>

type_synonym process_one =
  "queue_item \<Rightarrow> queue_item option \<Rightarrow> mstate \<Rightarrow> py_error + ((bool \<times> queue_item option) \<times> mstate)"

fun process_items ::
  "process_one \<Rightarrow> queue_item list \<Rightarrow> bool \<Rightarrow> queue_item option \<Rightarrow> mstate
     \<Rightarrow> py_error + (bool \<times> mstate)" where
  "process_items processOneItem [] queue_changed nnfi st = Inr (queue_changed, st)"
| "process_items processOneItem (item # items) queue_changed nnfi st =
     (case processOneItem item nnfi st of
        Inl e \<Rightarrow> Inl e
      | Inr ((item_changed, nnfi'), st') \<Rightarrow>
          process_items processOneItem items (queue_changed \<or> item_changed) nnfi' st')"

partial_function (option) process_queues ::
  "process_one \<Rightarrow> nat \<Rightarrow> bool \<Rightarrow> mstate \<Rightarrow> (py_error + (bool \<times> mstate)) option" where
  "process_queues processOneItem i changed st =
     (if i < length (pipeline_queues st) then
        (case process_items processOneItem (queue (queue_objs st (pipeline_queues st ! i)))
                False None st of
           Inl e \<Rightarrow> Some (Inl e)
         | Inr (queue_changed, st') \<Rightarrow>
             process_queues processOneItem (Suc i) (changed \<or> queue_changed) st')
      else Some (Inr (changed, st)))"

definition processQueue :: "process_one \<Rightarrow> mstate \<Rightarrow> (py_error + (bool \<times> mstate)) option" where
  "processQueue processOneItem st =
     (case process_queues processOneItem 0 False st of
        None \<Rightarrow> None
      | Some (Inl e) \<Rightarrow> Some (Inl e)
      | Some (Inr (changed, st')) \<Rightarrow> Some (Inr (changed, maintainCache' st')))"

subsection \<open>\<^verbatim>\<open>executeJobs\<close> and \<^verbatim>\<open>_executeJobs\<close>\<close>

text \<open>
  \<open>findJobsToRun\<close> is the item's method of that name (it may acquire semaphores, so
  it works on the store); \<open>execute\<close> says whether the lines from
  \<^verbatim>\<open>getJobNodeExecutorZone\<close> to \<^verbatim>\<open>executor.execute\<close> complete for the job
  (true) or raise. When they raise, the job's semaphore is released, and an exception
  of the release is logged and dropped.
\<close>

record exec_env =
  findJobsToRun :: "queue_item \<Rightarrow> zk_world \<Rightarrow> job list \<times> zk_world"
  execute :: "queue_item \<Rightarrow> job \<Rightarrow> bool"
  semaphore_handler :: semaphore_handler

fun executeJobs' :: "exec_env \<Rightarrow> queue_item \<Rightarrow> job list \<Rightarrow> mstate \<Rightarrow> mstate" where
  "executeJobs' env item [] st = st"
| "executeJobs' env item (j # jobs) st =
     (if execute env item j then
        executeJobs' env item jobs
          (st\<lparr>launched := launched st @ [(uuid item, job_name j)]\<rparr>)
      else
        executeJobs' env item jobs
          (st\<lparr>zk := snd (release (semaphore_handler env) (uuid item) j (zk st))\<rparr>))"

text \<open>
  \<^verbatim>\<open>executeJobs(item)\<close> returns \<^verbatim>\<open>False\<close> (\<open>Some False\<close>) for an item
  without a job graph; every other path runs off the end of the function, which in
  Python returns \<^verbatim>\<open>None\<close> (\<open>None\<close>).
\<close>

definition executeJobs :: "exec_env \<Rightarrow> queue_item \<Rightarrow> mstate \<Rightarrow> bool option \<times> mstate" where
  "executeJobs env item st =
     (if job_graph (current_build_set item) = None then (Some False, st)
      else
        (let (jobs, zk') = findJobsToRun env item (zk st);
             st1 = st\<lparr>zk := zk'\<rparr>
         in if jobs \<noteq> [] then (None, executeJobs' env item jobs st1)
            else (None, st1)))"

subsection \<open>\<^verbatim>\<open>updateCommitDependencies\<close>\<close>

text \<open>
  The collaborators of the loop are parameters: \<open>find_dependency_headers\<close>
  (\<^verbatim>\<open>zuul.lib.dependson\<close>) gives the URLs of the \<^verbatim>\<open>Depends-On\<close> headers of a
  commit message in the order they occur, \<open>urlparse_hostname\<close> is
  \<^verbatim>\<open>urllib.parse.urlparse(match).hostname\<close> (\<open>None\<close> when \<^verbatim>\<open>urlparse\<close>
  raises \<^verbatim>\<open>ValueError\<close>, \<open>Some None\<close> for a URL without host),
  \<open>getSourceByHostname\<close> and \<open>getChangeByURL\<close> are the lookups of the
  connection registry and of a source. The type \<open>'d\<close> of the changes a source returns
  is left open, with the two attributes the loop reads; \<^verbatim>\<open>dep not in dependencies\<close>
  is the equality of \<open>'d\<close>.
\<close>

record ('s, 'd) dep_env =
  find_dependency_headers :: "pystr \<Rightarrow> pystr list"
  urlparse_hostname :: "pystr \<Rightarrow> pystr option option"
  getSourceByHostname :: "pystr option \<Rightarrow> 's option"
  getChangeByURL :: "'s \<Rightarrow> pystr \<Rightarrow> 'd option"
  dep_is_merged :: "'d \<Rightarrow> bool"
  dep_cache_key :: "'d \<Rightarrow> pystr"

text \<open>The \<^verbatim>\<open>for\<close> loop, with the set \<^verbatim>\<open>seen\<close> and the list \<^verbatim>\<open>dependencies\<close>.\<close>

fun commit_dependencies ::
  "('s, 'd) dep_env \<Rightarrow> pystr list \<Rightarrow> pystr set \<Rightarrow> 'd list \<Rightarrow> 'd list" where
  "commit_dependencies env [] seen dependencies = dependencies"
| "commit_dependencies env (match # matches) seen dependencies =
     (if match \<in> seen then commit_dependencies env matches seen dependencies
      else
        (let seen' = insert match seen in
         case urlparse_hostname env match of
           None \<Rightarrow> commit_dependencies env matches seen' dependencies
         | Some hostname \<Rightarrow>
             (case getSourceByHostname env hostname of
                None \<Rightarrow> commit_dependencies env matches seen' dependencies
              | Some source \<Rightarrow>
                  (case getChangeByURL env source match of
                     None \<Rightarrow> commit_dependencies env matches seen' dependencies
                   | Some dep \<Rightarrow>
                       if \<not> dep_is_merged env dep \<and> dep \<notin> set dependencies then
                         commit_dependencies env matches seen' (dependencies @ [dep])
                       else commit_dependencies env matches seen' dependencies))))"

text \<open>
  The function returns the change as it is after the call, and the state, in which a
  call of \<^verbatim>\<open>setChangeAttributes\<close> is recorded.
\<close>

definition updateCommitDependencies ::
  "('s, 'd) dep_env \<Rightarrow> change \<Rightarrow> mstate \<Rightarrow> change \<times> mstate" where
  "updateCommitDependencies env c st =
     (let dependencies = commit_dependencies env (find_dependency_headers env (message c)) {} [];
          new_commit_needs_changes = map (dep_cache_key env) dependencies
      in if commit_needs_changes c \<noteq> new_commit_needs_changes then
           (c\<lparr>commit_needs_changes := new_commit_needs_changes\<rparr>,
            st\<lparr>change_writes := change_writes st @ [(cache_key c, new_commit_needs_changes)]\<rparr>)
         else (c, st))"

text \<open>
  The same in the words of the specification: keep the first occurrence of each URL,
  resolve each through the source of its host, drop the merged changes, keep the first
  occurrence of each change; write the keys back only if they differ.
\<close>

definition first_occurrences :: "'a list \<Rightarrow> 'a list" where
  "first_occurrences xs = rev (remdups (rev xs))"

definition resolve_url :: "('s, 'd) dep_env \<Rightarrow> pystr \<Rightarrow> 'd option" where
  "resolve_url env url =
     (case urlparse_hostname env url of
        None \<Rightarrow> None
      | Some hostname \<Rightarrow>
          (case getSourceByHostname env hostname of
             None \<Rightarrow> None
           | Some source \<Rightarrow> getChangeByURL env source url))"

definition spec_commit_needs_changes :: "('s, 'd) dep_env \<Rightarrow> change \<Rightarrow> pystr list" where
  "spec_commit_needs_changes env c =
     map (dep_cache_key env)
       (first_occurrences
          (filter (\<lambda>dep. \<not> dep_is_merged env dep)
             (List.map_filter (resolve_url env)
                (first_occurrences (find_dependency_headers env (message c))))))"

text \<open>
  Two auxiliary functions for the comparison: the first occurrences of a list that are
  not in a given set, and one step of the loop on a resolved change.
\<close>

fun first_from :: "'a set \<Rightarrow> 'a list \<Rightarrow> 'a list" where
  "first_from S [] = []"
| "first_from S (x # xs) = (if x \<in> S then first_from S xs else x # first_from (insert x S) xs)"

definition add_dep :: "('s, 'd) dep_env \<Rightarrow> 'd list \<Rightarrow> 'd \<Rightarrow> 'd list" where
  "add_dep env deps d = (if \<not> dep_is_merged env d \<and> d \<notin> set deps then deps @ [d] else deps)"

subsection \<open>A fresh item\<close>

text \<open>
  Modelled from the spec: the item that \<^verbatim>\<open>ChangeQueue.enqueueChange\<close> creates
  (\<^verbatim>\<open>QueueItem(pipeline, queue, change, event)\<close> with a build set of its own,
  "created on enqueue"): live, nothing reported, no layout, no job graph, no result, and
  therefore no jobs, errors or failures to answer about.
\<close>

definition new_build_set :: build_set where
  "new_build_set = \<lparr>job_graph = None, bs_result = None\<rparr>"

definition new_item :: "pystr \<Rightarrow> change \<Rightarrow> nat \<Rightarrow> queue_item" where
  "new_item u c q =
     \<lparr>uuid = u, item_change = c, item_queue = q, live = True, quiet = False,
      enqueue_time = None, layout_uuid = None, reported_enqueue = False, warnings = [],
      current_build_set = new_build_set, ans_getJobs = [], ans_getConfigErrors = [],
      ans_didMergerFail = False, ans_wasDequeuedNeedingChange = False,
      ans_cannotMergeBundle = False, ans_isBundleFailing = False,
      ans_didAllJobsSucceed = False\<rparr>"

subsection \<open>Reporting: \<^verbatim>\<open>sendReport\<close>, \<^verbatim>\<open>getLayout\<close>, \<^verbatim>\<open>_reportItem\<close>\<close>

text \<open>
  Modelled from the spec: \<^verbatim>\<open>QueueItem.setReportedResult(result)\<close> and
  \<^verbatim>\<open>QueueItem.warning(msg)\<close> (\<^verbatim>\<open>zuul/model.py\<close>). The reported result is
  kept on the current build set, where \<^verbatim>\<open>dequeueItem\<close> reads it as
  \<^verbatim>\<open>item.current_build_set.result\<close>; a warning is kept on the item ("carrying the
  cycle warning").
\<close>

definition setReportedResult :: "pystr \<Rightarrow> queue_item \<Rightarrow> queue_item" where
  "setReportedResult result item =
     item\<lparr>current_build_set := (current_build_set item)\<lparr>bs_result := Some result\<rparr>\<rparr>"

definition warning :: "pystr \<Rightarrow> queue_item \<Rightarrow> queue_item" where
  "warning msg item = item\<lparr>warnings := warnings item @ [msg]\<rparr>"

text \<open>
  What \<^verbatim>\<open>reporter.report(item)\<close> does is the reporter's business: it returns
  \<^verbatim>\<open>None\<close> or a message, or raises. \<open>getProjectPipelineConfig\<close> is the
  layout's method (true when it returns a config), which may raise. \<open>getLayout_miss\<close>
  is \<^verbatim>\<open>_getLayout(item)\<close>, the computation of a layout that is not cached: it may
  change the item and add layouts of items ahead to the cache, and touches nothing else
  of the manager.
\<close>

datatype report_outcome = Returned "pystr option" | Raised pystr

record report_env =
  reporter_report :: "reporter \<Rightarrow> queue_item \<Rightarrow> report_outcome"
  getProjectPipelineConfig :: "layout \<Rightarrow> queue_item \<Rightarrow> py_error + bool"
  getLayout_miss ::
    "queue_item \<Rightarrow> (pystr \<rightharpoonup> layout) \<Rightarrow> layout option \<times> queue_item \<times> (pystr \<rightharpoonup> layout)"

text \<open>
  \<^verbatim>\<open>sendReport(action_reporters, item)\<close> returns the list of errors and leaves the
  item marked \<^verbatim>\<open>ERROR\<close> if a reporter raised.
\<close>

fun sendReport ::
  "report_env \<Rightarrow> reporter list \<Rightarrow> queue_item \<Rightarrow> mstate \<Rightarrow> pystr list \<times> queue_item \<times> mstate" where
  "sendReport env [] item st = ([], item, st)"
| "sendReport env (r # action_reporters) item st =
     (let st1 = st\<lparr>reports := reports st @ [(r, item)]\<rparr> in
      case reporter_report env r item of
        Returned ret \<Rightarrow>
          (let (report_errors, item', st') = sendReport env action_reporters item st1 in
           case ret of
             None \<Rightarrow> (report_errors, item', st')
           | Some msg \<Rightarrow> if msg = [] then (report_errors, item', st')
                         else (msg # report_errors, item', st'))
      | Raised e \<Rightarrow>
          (let (report_errors, item', st') =
                 sendReport env action_reporters (setReportedResult (py ''ERROR'') item) st1
           in (e # report_errors, item', st')))"

definition getLayout ::
  "report_env \<Rightarrow> queue_item \<Rightarrow> mstate \<Rightarrow> layout option \<times> queue_item \<times> mstate" where
  "getLayout env item st =
     (case (case layout_uuid item of None \<Rightarrow> None | Some u \<Rightarrow> layout_cache st u) of
        Some cached \<Rightarrow> (Some cached, item, st)
      | None \<Rightarrow>
          (case getLayout_miss env item (layout_cache st) of
             (None, item1, cache1) \<Rightarrow> (None, item1, st\<lparr>layout_cache := cache1\<rparr>)
           | (Some l, item1, cache1) \<Rightarrow>
               (Some l, item1\<lparr>layout_uuid := Some (l_uuid l)\<rparr>,
                st\<lparr>layout_cache := cache1(l_uuid l \<mapsto> l)\<rparr>)))"

text \<open>
  Lines 1724 to 1737 of \<^verbatim>\<open>_reportItem\<close>: whether the item's project is in the
  pipeline. An exception of \<^verbatim>\<open>getProjectPipelineConfig\<close> is logged and leaves the
  answer false.
\<close>

definition project_in_pipeline_of ::
  "pipeline \<Rightarrow> report_env \<Rightarrow> queue_item \<Rightarrow> mstate \<Rightarrow> bool \<times> queue_item \<times> mstate" where
  "project_in_pipeline_of pl env item st =
     (if ans_getJobs item \<noteq> [] then (True, item, st)
      else
        (let (found, item1, st1) =
               (case layout_uuid item of
                  None \<Rightarrow> (None, item, st)
                | Some u \<Rightarrow> if u = [] then (None, item, st) else getLayout env item st);
             l = (case found of None \<Rightarrow> tenant_layout pl | Some l' \<Rightarrow> l')
         in case getProjectPipelineConfig env l item1 of
              Inl e \<Rightarrow> (False, item1, st1)
            | Inr b \<Rightarrow> (b, item1, st1)))"

text \<open>
  Lines 1738 to 1792: the choice of the action, the reporters and the result, with the
  update of \<^verbatim>\<open>pipeline.state.consecutive_failures\<close>. The value is the action, the
  reporters, the item with its reported result, and the pipeline state.
\<close>

definition reportItem_select ::
  "pipeline \<Rightarrow> bool \<Rightarrow> queue_item \<Rightarrow> pipeline_state
     \<Rightarrow> pystr \<times> reporter list \<times> queue_item \<times> pipeline_state" where
  "reportItem_select pl project_in_pipeline item ps =
     (if \<not> project_in_pipeline then
        (py ''no-jobs'', no_jobs_actions pl, setReportedResult (py ''NO_JOBS'') item, ps)
      else if ans_getConfigErrors item \<noteq> [] then
        (py ''merge-failure'', merge_failure_actions pl,
         setReportedResult (py ''CONFIG_ERROR'') item, ps)
      else if ans_didMergerFail item then
        (py ''merge-failure'', merge_failure_actions pl,
         setReportedResult (py ''MERGER_FAILURE'') item, ps)
      else if ans_wasDequeuedNeedingChange item then
        (py ''failure'', failure_actions pl, setReportedResult (py ''FAILURE'') item, ps)
      else if ans_getJobs item = [] then
        (py ''no-jobs'', no_jobs_actions pl, setReportedResult (py ''NO_JOBS'') item, ps)
      else if ans_cannotMergeBundle item then
        (py ''failure'', failure_actions pl, setReportedResult (py ''FAILURE'') item, ps)
      else if ans_isBundleFailing item then
        (let item1 = setReportedResult (py ''FAILURE'') item in
         (py ''failure'', failure_actions pl, item1,
          if \<not> ans_didAllJobsSucceed item1
          then ps\<lparr>consecutive_failures := consecutive_failures ps + 1\<rparr> else ps))
      else if ans_didAllJobsSucceed item \<and> \<not> ans_isBundleFailing item then
        (py ''success'', success_actions pl, setReportedResult (py ''SUCCESS'') item,
         ps\<lparr>consecutive_failures := 0\<rparr>)
      else
        (py ''failure'', failure_actions pl, setReportedResult (py ''FAILURE'') item,
         ps\<lparr>consecutive_failures := consecutive_failures ps + 1\<rparr>))"

text \<open>
  \<^verbatim>\<open>_reportItem(item)\<close> returns \<^verbatim>\<open>True\<close> (\<open>NothingSent\<close>) when there were
  no reporters, and else the errors of \<^verbatim>\<open>sendReport\<close>.
\<close>

datatype report_ret = NothingSent | ReportErrors "pystr list"

definition reportItem' ::
  "pipeline \<Rightarrow> report_env \<Rightarrow> queue_item \<Rightarrow> mstate \<Rightarrow> report_ret \<times> queue_item \<times> mstate" where
  "reportItem' pl env item st =
     (let (project_in_pipeline, item1, st1) = project_in_pipeline_of pl env item st;
          (action, actions0, item2, ps2) =
             reportItem_select pl project_in_pipeline item1 (pstate st1);
          actions = (if project_in_pipeline \<and> disabled ps2 then disabled_actions pl
                     else actions0);
          ps3 = (case disable_at pl of
                   None \<Rightarrow> ps2
                 | Some n \<Rightarrow>
                     if n \<noteq> 0 \<and> \<not> disabled ps2 \<and> consecutive_failures ps2 \<ge> n
                     then ps2\<lparr>disabled := True\<rparr> else ps2);
          st3 = st1\<lparr>pstate := ps3\<rparr>;
          (ret, item4, st4) =
             (if actions \<noteq> [] then
                (let (report_errors, item', st') = sendReport env actions item2 st3
                 in (ReportErrors report_errors, item', st'))
              else (NothingSent, item2, st3))
      in (ret, item4,
          st4\<lparr>sql_log := sql_log st4 @ [(current_build_set item4, action, True)]\<rparr>))"

subsection \<open>\<^verbatim>\<open>addChange\<close> and what it calls\<close>

text \<open>
  The parameters of \<^verbatim>\<open>addChange\<close>: \<open>equals\<close> is \<^verbatim>\<open>Change.equals\<close>;
  a ref filter has a connection name and a \<^verbatim>\<open>matches\<close> test;
  \<open>isChangeReadyToBeEnqueued\<close>, \<open>getChangeQueue\<close>, \<open>enqueueChangesAhead\<close>
  and \<open>enqueueChangesBehind\<close> are the methods that the concrete managers define
  (the base class has \<^verbatim>\<open>getChangeQueue\<close> abstract); they may change the state,
  the history and the dependency graph. \<open>strongly_connected_components\<close> is
  \<^verbatim>\<open>zuul.lib.tarjan\<close>. \<open>new_uuid\<close> names the items created, one name per number.
  \<open>updateBundle\<close>, \<open>onChangeEnqueued\<close> and \<open>dequeueSupercededItems\<close> work on
  bundles, on the driver and on other pipelines, which are not part of this state, and
  are parameters too.
\<close>

record ref_filter =
  rf_connection_name :: pystr
  rf_matches :: "change \<Rightarrow> bool"

type_synonym dependency_graph = "(change \<times> change list) list"

datatype queue_context =
    DynamicChangeQueueContextManager "nat option"
  | StaticChangeQueueContextManager "nat option"

record add_env =
  equals :: "change \<Rightarrow> change \<Rightarrow> bool"
  ref_filters :: "ref_filter list"
  isChangeReadyToBeEnqueued :: "change \<Rightarrow> bool"
  connections :: "(pystr, change) dep_env"
  getChangeQueue :: "change \<Rightarrow> nat option \<Rightarrow> mstate \<Rightarrow> queue_context \<times> mstate"
  enqueueChangesAhead ::
    "change \<Rightarrow> bool \<Rightarrow> bool \<Rightarrow> nat \<Rightarrow> change list \<Rightarrow> dependency_graph \<Rightarrow> mstate
       \<Rightarrow> bool \<times> change list \<times> dependency_graph \<times> mstate"
  enqueueChangesBehind ::
    "change \<Rightarrow> bool \<Rightarrow> bool \<Rightarrow> nat \<Rightarrow> change list \<Rightarrow> dependency_graph \<Rightarrow> mstate
       \<Rightarrow> change list \<times> dependency_graph \<times> mstate"
  strongly_connected_components :: "dependency_graph \<Rightarrow> change list list"
  reporting :: report_env
  new_uuid :: "nat \<Rightarrow> pystr"
  updateBundle :: "queue_item \<Rightarrow> nat \<Rightarrow> change list \<Rightarrow> mstate \<Rightarrow> queue_item \<times> mstate"
  onChangeEnqueued :: "change \<Rightarrow> mstate \<Rightarrow> mstate"
  dequeueSupercededItems :: "queue_item \<Rightarrow> mstate \<Rightarrow> mstate"

text \<open>Whether a Python string that may be \<^verbatim>\<open>None\<close> is truthy.\<close>

definition truthy :: "pystr option \<Rightarrow> bool" where
  "truthy s = (case s of None \<Rightarrow> False | Some v \<Rightarrow> v \<noteq> [])"

text \<open>
  Modelled from the spec: the operations of \<^verbatim>\<open>ChangeQueue\<close> and of the pipeline on
  its queues (section 4.2: "\<^verbatim>\<open>enqueueChange(change, event)\<close> appends a new item at the
  tail", "\<^verbatim>\<open>dequeueItem(item)\<close> unlinks; if dynamic and empty, the parent pipeline
  removes the queue"). An item is found in its queue by its uuid. \<open>store_item\<close> puts
  the present value of an item in the place of the one in its queue: an item is one
  object, in the queue and in the hands of the manager.
\<close>

definition removeQueue :: "nat \<Rightarrow> mstate \<Rightarrow> mstate" where
  "removeQueue q st = st\<lparr>pipeline_queues := remove1 q (pipeline_queues st)\<rparr>"

definition set_queue :: "nat \<Rightarrow> queue_item list \<Rightarrow> mstate \<Rightarrow> mstate" where
  "set_queue q items st =
     st\<lparr>queue_objs := (queue_objs st)(q := (queue_objs st q)\<lparr>queue := items\<rparr>)\<rparr>"

definition enqueueChange :: "add_env \<Rightarrow> nat \<Rightarrow> change \<Rightarrow> mstate \<Rightarrow> queue_item \<times> mstate" where
  "enqueueChange env q c st =
     (let item = new_item (new_uuid env (uuids_used st)) c q
      in (item, (set_queue q (queue (queue_objs st q) @ [item]) st)
                  \<lparr>uuids_used := Suc (uuids_used st)\<rparr>))"

definition store_item :: "queue_item \<Rightarrow> mstate \<Rightarrow> mstate" where
  "store_item item st =
     set_queue (item_queue item)
       (map (\<lambda>i. if uuid i = uuid item then item else i)
          (queue (queue_objs st (item_queue item)))) st"

definition queue_dequeueItem :: "queue_item \<Rightarrow> mstate \<Rightarrow> mstate" where
  "queue_dequeueItem item st =
     (let q = item_queue item;
          st1 = set_queue q (filter (\<lambda>i. uuid i \<noteq> uuid item) (queue (queue_objs st q))) st
      in if dynamic (queue_objs st1 q) \<and> queue (queue_objs st1 q) = [] then removeQueue q st1
         else st1)"

text \<open>The checks for duplicates and \<^verbatim>\<open>getItemForChange\<close>.\<close>

definition isChangeAlreadyInPipeline :: "add_env \<Rightarrow> change \<Rightarrow> mstate \<Rightarrow> bool" where
  "isChangeAlreadyInPipeline env c st =
     list_ex (\<lambda>item. live item \<and> equals env c (item_change item)) (getAllItems st)"

definition isChangeAlreadyInQueue :: "add_env \<Rightarrow> change \<Rightarrow> nat \<Rightarrow> mstate \<Rightarrow> bool" where
  "isChangeAlreadyInQueue env c q st =
     list_ex (\<lambda>item. equals env c (item_change item)) (queue (queue_objs st q))"

definition getItemForChange :: "add_env \<Rightarrow> change \<Rightarrow> nat option \<Rightarrow> mstate \<Rightarrow> queue_item option" where
  "getItemForChange env c change_queue st =
     find (\<lambda>item. equals env (item_change item) c)
       (case change_queue of None \<Rightarrow> getAllItems st | Some q \<Rightarrow> queue (queue_objs st q))"

text \<open>The requirements of the pipeline: every filter of the change's connection matches.\<close>

definition ref_filters_match :: "add_env \<Rightarrow> change \<Rightarrow> bool" where
  "ref_filters_match env c =
     list_all (\<lambda>f. if rf_connection_name f \<noteq> connection_name (change_project c) then True
                    else rf_matches f c) (ref_filters env)"

text \<open>\<^verbatim>\<open>cycleForChange\<close>: the first component of more than one change that has the change.\<close>

definition cycleForChange :: "add_env \<Rightarrow> change \<Rightarrow> dependency_graph \<Rightarrow> change list" where
  "cycleForChange env c dependency_graph =
     (case find (\<lambda>scc. c \<in> set scc)
             (filter (\<lambda>s. length s > 1) (strongly_connected_components env dependency_graph)) of
        Some scc \<Rightarrow> scc
      | None \<Rightarrow> [])"

text \<open>
  \<^verbatim>\<open>canProcessCycle(project)\<close>: the loop over the project's configurations finds the
  queue name of the project and that of the project in this pipeline, each the first
  truthy one; the project's has precedence.
\<close>

fun queue_names ::
  "pystr \<Rightarrow> project_config list \<Rightarrow> pystr option \<Rightarrow> pystr option \<Rightarrow> pystr option \<times> pystr option" where
  "queue_names pname [] project_queue_name pipeline_queue_name =
     (project_queue_name, pipeline_queue_name)"
| "queue_names pname (project_config # rest) project_queue_name pipeline_queue_name =
     (let project_queue_name' =
            (if \<not> truthy project_queue_name then pc_queue_name project_config
             else project_queue_name)
      in case pc_pipelines project_config pname of
           None \<Rightarrow> queue_names pname rest project_queue_name' pipeline_queue_name
         | Some project_pipeline_config \<Rightarrow>
             queue_names pname rest project_queue_name'
               (if \<not> truthy pipeline_queue_name then ppc_queue_name project_pipeline_config
                else pipeline_queue_name))"

definition canProcessCycle :: "pipeline \<Rightarrow> project \<Rightarrow> bool" where
  "canProcessCycle pl p =
     (let (project_queue_name, pipeline_queue_name) =
            queue_names (pipeline_name pl)
              (getAllProjectConfigs (tenant_layout pl) (canonical_name p)) None None;
          queue_name = (if truthy project_queue_name then project_queue_name
                        else pipeline_queue_name)
      in case queue_name of
           None \<Rightarrow> False
         | Some n \<Rightarrow>
             (case l_queues (tenant_layout pl) n of
                None \<Rightarrow> False
              | Some queue_config \<Rightarrow> allow_circular_dependencies queue_config))"

text \<open>\<^verbatim>\<open>reportEnqueue\<close>, \<^verbatim>\<open>reportDequeue\<close> and \<^verbatim>\<open>dequeueItem\<close> of the manager.\<close>

definition reportEnqueue :: "pipeline \<Rightarrow> add_env \<Rightarrow> queue_item \<Rightarrow> mstate \<Rightarrow> queue_item \<times> mstate" where
  "reportEnqueue pl env item st =
     (if \<not> disabled (pstate st) then
        (let (ret, item', st') = sendReport (reporting env) (enqueue_actions pl) item st
         in (item', st'))
      else (item, st))"

definition reportDequeue :: "pipeline \<Rightarrow> add_env \<Rightarrow> queue_item \<Rightarrow> mstate \<Rightarrow> queue_item \<times> mstate" where
  "reportDequeue pl env item st =
     (let (item1, st1) =
            (if \<not> disabled (pstate st) then
               (let (ret, item', st') = sendReport (reporting env) (dequeue_actions pl) item st
                in (item', st'))
             else (item, st))
      in (item1, st1\<lparr>sql_log := sql_log st1 @ [(current_build_set item1, py ''dequeue'', False)]\<rparr>))"

definition dequeueItem :: "pipeline \<Rightarrow> add_env \<Rightarrow> queue_item \<Rightarrow> mstate \<Rightarrow> queue_item \<times> mstate" where
  "dequeueItem pl env item st =
     (let (item1, st1) =
            (if \<not> truthy (bs_result (current_build_set item)) \<and> live item then
               reportDequeue pl env (setReportedResult (py ''DEQUEUED'') item) st
             else (item, st))
      in (item1, queue_dequeueItem item1 st1))"

text \<open>
  \<^verbatim>\<open>dequeueIncompleteCycle\<close>: the items of the queue found for the changes of the
  cycle are collected first and then dequeued one after the other.
\<close>

fun dequeue_items :: "pipeline \<Rightarrow> add_env \<Rightarrow> queue_item list \<Rightarrow> mstate \<Rightarrow> mstate" where
  "dequeue_items pl env [] st = st"
| "dequeue_items pl env (cycle_item # items) st =
     dequeue_items pl env items (snd (dequeueItem pl env cycle_item st))"

definition dequeueIncompleteCycle ::
  "pipeline \<Rightarrow> add_env \<Rightarrow> change \<Rightarrow> dependency_graph \<Rightarrow> nat \<Rightarrow> mstate \<Rightarrow> mstate" where
  "dequeueIncompleteCycle pl env c dependency_graph q st =
     (let cycle = cycleForChange env c dependency_graph;
          enqueued_cycle_items =
            List.map_filter (\<lambda>c'. getItemForChange env c' (Some q) st) cycle
      in dequeue_items pl env enqueued_cycle_items st)"

text \<open>The two context managers: the dynamic one removes its queue on exit when it is empty.\<close>

definition context_queue :: "queue_context \<Rightarrow> nat option" where
  "context_queue cm =
     (case cm of
        DynamicChangeQueueContextManager q \<Rightarrow> q
      | StaticChangeQueueContextManager q \<Rightarrow> q)"

definition context_exit :: "queue_context \<Rightarrow> mstate \<Rightarrow> mstate" where
  "context_exit cm st =
     (case cm of
        DynamicChangeQueueContextManager (Some q) \<Rightarrow>
          if queue (queue_objs st q) = [] then removeQueue q st else st
      | _ \<Rightarrow> st)"

text \<open>
  Lines 502 to 520 of \<^verbatim>\<open>addChange\<close>: the cycle is not allowed. The item made for
  the last change of the cycle gets the warning and the result \<^verbatim>\<open>FAILURE\<close>, is
  reported with the failure reporters if its project is in the pipeline, and is dequeued.
\<close>

definition report_forbidden_cycle ::
  "pipeline \<Rightarrow> add_env \<Rightarrow> nat \<Rightarrow> change list \<Rightarrow> mstate \<Rightarrow> (py_error + bool) \<times> mstate" where
  "report_forbidden_cycle pl env q cycle st =
     (let actions = failure_actions pl;
          (ci0, st1) = enqueueChange env q (last cycle) st;
          ci = setReportedResult (py ''FAILURE'') (warning (py ''Dependency cycle detected'') ci0);
          st2 = store_item ci st1
      in case getProjectPipelineConfig (reporting env) (tenant_layout pl) ci of
           Inl e \<Rightarrow> (Inl e, st2)
         | Inr in_pipeline \<Rightarrow>
             (let (ci3, st3) =
                    (if in_pipeline then
                       (let (ret, ci', st') = sendReport (reporting env) actions ci st2
                        in (ci', store_item ci' st'))
                     else (ci, st2));
                  (ci4, st4) = dequeueItem pl env ci3 st3
              in (Inr False,
                  st4\<lparr>sql_log := sql_log st4 @ [(current_build_set ci4, py ''failure'', True)]\<rparr>)))"

text \<open>Lines 522 to 558: the change is enqueued.\<close>

fun enqueue_behind ::
  "add_env \<Rightarrow> change list \<Rightarrow> bool \<Rightarrow> bool \<Rightarrow> nat \<Rightarrow> change list \<Rightarrow> dependency_graph \<Rightarrow> mstate
     \<Rightarrow> mstate" where
  "enqueue_behind env [] quiet_arg ignore_requirements q history dependency_graph st = st"
| "enqueue_behind env (c # cs) quiet_arg ignore_requirements q history dependency_graph st =
     (let (history', dependency_graph', st') =
            enqueueChangesBehind env c quiet_arg ignore_requirements q history dependency_graph st
      in enqueue_behind env cs quiet_arg ignore_requirements q history' dependency_graph' st')"

definition enqueue_new_item ::
  "pipeline \<Rightarrow> add_env \<Rightarrow> change \<Rightarrow> bool \<Rightarrow> nat option \<Rightarrow> bool \<Rightarrow> bool \<Rightarrow> nat \<Rightarrow> change list
     \<Rightarrow> change list \<Rightarrow> dependency_graph \<Rightarrow> mstate \<Rightarrow> (py_error + bool) \<times> mstate" where
  "enqueue_new_item pl env c quiet_arg enqueue_time_arg ignore_requirements live_arg q cycle
       history dependency_graph st =
     (let (item0, st1) = enqueueChange env q c st;
          (item1, st2) = updateBundle env item0 q cycle st1;
          item2 = item1\<lparr>enqueue_time := (case enqueue_time_arg of
                                            None \<Rightarrow> enqueue_time item1
                                          | Some t \<Rightarrow> if t = 0 then enqueue_time item1 else Some t),
                       live := live_arg, quiet := quiet_arg\<rparr>;
          st3 = store_item item2 st2;
          (item3, st4) =
            (if live item2 \<and> \<not> reported_enqueue item2 then
               (let (item', st') = reportEnqueue pl env item2 st3;
                    item'' = item'\<lparr>reported_enqueue := True\<rparr>
                in (item'', store_item item'' st'))
             else (item2, st3));
          st5 = (if list_all (\<lambda>c'. isChangeAlreadyInQueue env c' q st4) cycle then
                   enqueue_behind env (if cycle \<noteq> [] then cycle else [c]) quiet_arg
                     ignore_requirements q history dependency_graph st4
                 else st4);
          st6 = onChangeEnqueued env (item_change item3) st5
      in (Inr True, dequeueSupercededItems env item3 st6))"

text \<open>The body of the \<^verbatim>\<open>with\<close> statement (lines 477 to 558), for the queue found.\<close>

definition addChange_in_queue ::
  "pipeline \<Rightarrow> add_env \<Rightarrow> change \<Rightarrow> bool \<Rightarrow> nat option \<Rightarrow> bool \<Rightarrow> bool \<Rightarrow> nat option
     \<Rightarrow> change list \<Rightarrow> dependency_graph \<Rightarrow> mstate \<Rightarrow> (py_error + bool) \<times> mstate" where
  "addChange_in_queue pl env c quiet_arg enqueue_time_arg ignore_requirements live_arg change_queue
       history dependency_graph st =
     (case change_queue of
        None \<Rightarrow> (Inr False, st)
      | Some q \<Rightarrow>
          (let (ok, history1, graph1, st1) =
                 enqueueChangesAhead env c quiet_arg ignore_requirements q history dependency_graph st
           in if \<not> ok then (Inr False, dequeueIncompleteCycle pl env c graph1 q st1)
              else if isChangeAlreadyInQueue env c q st1 then (Inr True, st1)
              else
                (let cycle = (if is_Change c then cycleForChange env c graph1 else [])
                 in if is_Change c \<and> cycle \<noteq> [] \<and> \<not> canProcessCycle pl (change_project c)
                    then report_forbidden_cycle pl env q cycle st1
                    else enqueue_new_item pl env c quiet_arg enqueue_time_arg ignore_requirements
                           live_arg q cycle history1 graph1 st1)))"

text \<open>
  \<^verbatim>\<open>addChange(change, event, quiet, enqueue_time, ignore_requirements, live,
  change_queue, history, dependency_graph)\<close>. A missing history or graph is the empty one.
  The context manager's exit runs on every way out of the \<^verbatim>\<open>with\<close> statement.
\<close>

definition addChange ::
  "pipeline \<Rightarrow> add_env \<Rightarrow> change \<Rightarrow> bool \<Rightarrow> nat option \<Rightarrow> bool \<Rightarrow> bool \<Rightarrow> nat option
     \<Rightarrow> change list \<Rightarrow> dependency_graph \<Rightarrow> mstate \<Rightarrow> (py_error + bool) \<times> mstate" where
  "addChange pl env c quiet_arg enqueue_time_arg ignore_requirements live_arg change_queue
       history dependency_graph st =
     (if live_arg \<and> isChangeAlreadyInPipeline env c st then (Inr True, st)
      else if \<not> ignore_requirements \<and> \<not> ref_filters_match env c then (Inr False, st)
      else if \<not> isChangeReadyToBeEnqueued env c then (Inr False, st)
      else
        (let (c1, st1) = (if is_Change c then updateCommitDependencies (connections env) c st
                          else (c, st));
             (cm, st2) = getChangeQueue env c1 change_queue st1;
             (r, st3) = addChange_in_queue pl env c1 quiet_arg enqueue_time_arg ignore_requirements
                          live_arg (context_queue cm) history dependency_graph st2
         in (r, context_exit cm st3)))"


subsection \<open>Data of the worked examples of the manager\<close>

definition ex_project :: project where
  "ex_project = \<lparr>project_name = py ''p'', canonical_name = py ''h/p'', connection_name = py ''gerrit''\<rparr>"

definition ex_change :: "pystr \<Rightarrow> change" where
  "ex_change k =
     \<lparr>cache_key = k, change_project = ex_project, is_Change = True, message = [],
      commit_needs_changes = [], needs_changes = [], needed_by_changes = [], is_merged = False\<rparr>"

definition ex_layout :: "pystr \<Rightarrow> layout" where
  "ex_layout u = \<lparr>l_uuid = u, getAllProjectConfigs = (\<lambda>n. []), l_queues = Map.empty\<rparr>"

definition ex_zk :: zk_world where
  "ex_zk = \<lparr>nodes = Map.empty, pending = [], cas_log = []\<rparr>"

definition ex_mstate :: mstate where
  "ex_mstate =
     \<lparr>queue_objs = (\<lambda>q. \<lparr>queue = [], dynamic = False\<rparr>), pipeline_queues = [],
      pstate = \<lparr>disabled = False, consecutive_failures = 0\<rparr>,
      layout_cache = Map.empty, change_cache = Map.empty, zk = ex_zk, reports = [],
      sql_log = [], launched = [], change_writes = [], uuids_used = 0\<rparr>"

text \<open>
  A pipeline whose one queue holds one item that is not live (it stands ahead of a live
  item only to be tested with it) and has the layout \<^verbatim>\<open>L1\<close>; the cache holds
  \<^verbatim>\<open>L1\<close> and a layout \<^verbatim>\<open>L2\<close> that no item uses.
\<close>

definition ex_nonlive_item :: queue_item where
  "ex_nonlive_item = (new_item (py ''i1'') (ex_change (py ''A'')) 0)
     \<lparr>live := False, layout_uuid := Some (py ''L1'')\<rparr>"

definition ex_cache_state :: mstate where
  "ex_cache_state = ex_mstate
     \<lparr>queue_objs := (\<lambda>q. \<lparr>queue = (if q = 0 then [ex_nonlive_item] else []), dynamic = False\<rparr>),
      pipeline_queues := [0],
      layout_cache := [py ''L1'' \<mapsto> ex_layout (py ''L1''), py ''L2'' \<mapsto> ex_layout (py ''L2'')]\<rparr>"

definition ex_idle :: process_one where
  "ex_idle item nnfi st = Inr ((False, nnfi), st)"

text \<open>
  An item with a job graph of one job without semaphore, which is ready to run and which
  the executor accepts.
\<close>

definition ex_run_job :: job where
  "ex_run_job = \<lparr>job_name = py ''j'', job_semaphore = None\<rparr>"

definition ex_ready_item :: queue_item where
  "ex_ready_item = (new_item (py ''i2'') (ex_change (py ''B'')) 0)
     \<lparr>current_build_set := \<lparr>job_graph = Some [ex_run_job], bs_result = None\<rparr>,
      ans_getJobs := [ex_run_job]\<rparr>"

definition ex_exec_env :: exec_env where
  "ex_exec_env =
     \<lparr>findJobsToRun = (\<lambda>item w. (ans_getJobs item, w)),
      execute = (\<lambda>item j. True),
      semaphore_handler = ex_handler\<rparr>"

text \<open>
  A commit message with four \<^verbatim>\<open>Depends-On\<close> headers: \<^verbatim>\<open>u1\<close> twice,
  \<^verbatim>\<open>u2\<close>, which is the same change \<^verbatim>\<open>A\<close> under another URL, and
  \<^verbatim>\<open>u3\<close>, a change \<^verbatim>\<open>M\<close> that is merged.
\<close>

definition ex_dep_env :: "(pystr, change) dep_env" where
  "ex_dep_env =
     \<lparr>find_dependency_headers =
        (\<lambda>msg. if msg = py ''m'' then [py ''u1'', py ''u2'', py ''u1'', py ''u3''] else []),
      urlparse_hostname = (\<lambda>url. Some (Some (py ''h''))),
      getSourceByHostname = (\<lambda>h. if h = Some (py ''h'') then Some (py ''gerrit'') else None),
      getChangeByURL =
        (\<lambda>source url.
           if url = py ''u1'' \<or> url = py ''u2'' then Some (ex_change (py ''A''))
           else if url = py ''u3'' then Some ((ex_change (py ''M''))\<lparr>is_merged := True\<rparr>)
           else None),
      dep_is_merged = is_merged,
      dep_cache_key = cache_key\<rparr>"

definition ex_dependent_change :: change where
  "ex_dependent_change = (ex_change (py ''C''))\<lparr>message := py ''m''\<rparr>"

text \<open>
  A pipeline that reports success and failure through one reporter, which accepts every
  report; every project is in the pipeline; no layout is computed on demand.
\<close>

definition ex_pipeline :: pipeline where
  "ex_pipeline =
     \<lparr>pipeline_name = py ''gate'', tenant_layout = ex_layout (py ''L0''),
      enqueue_actions = [], start_actions = [], success_actions = [py ''gerrit''],
      failure_actions = [py ''gerrit''], merge_failure_actions = [], no_jobs_actions = [],
      dequeue_actions = [], disabled_actions = [], disable_at = None\<rparr>"

definition ex_report_env :: report_env where
  "ex_report_env =
     \<lparr>reporter_report = (\<lambda>r item. Returned None),
      getProjectPipelineConfig = (\<lambda>l item. Inr True),
      getLayout_miss = (\<lambda>item cache. (None, item, cache))\<rparr>"

subsection \<open>Data of the worked examples of \<^verbatim>\<open>addChange\<close>\<close>

text \<open>
  A manager with one static queue, number 0, for every change, no requirements, and
  nothing to enqueue ahead or behind; two changes are equal when their cache keys are;
  the graphs of the examples are one cycle, which is their one strongly connected
  component; the items are named \<^verbatim>\<open>item0\<close>, \<^verbatim>\<open>item1\<close>, ...
\<close>

definition ex_add_env :: add_env where
  "ex_add_env =
     \<lparr>equals = (\<lambda>a b. cache_key a = cache_key b),
      ref_filters = [],
      isChangeReadyToBeEnqueued = (\<lambda>c. True),
      connections = ex_dep_env,
      getChangeQueue = (\<lambda>c change_queue st. (StaticChangeQueueContextManager (Some 0), st)),
      enqueueChangesAhead = (\<lambda>c quiet_arg ignore_requirements q history dependency_graph st.
         (True, history, dependency_graph, st)),
      enqueueChangesBehind = (\<lambda>c quiet_arg ignore_requirements q history dependency_graph st.
         (history, dependency_graph, st)),
      strongly_connected_components = (\<lambda>dependency_graph. [map fst dependency_graph]),
      reporting = ex_report_env,
      new_uuid = (\<lambda>n. py ''item'' @ [48 + n]),
      updateBundle = (\<lambda>item q cycle st. (item, st)),
      onChangeEnqueued = (\<lambda>c st. st),
      dequeueSupercededItems = (\<lambda>item st. st)\<rparr>"






text \<open>A pipeline whose queue 0 holds one live item, of the change \<^verbatim>\<open>B\<close>.\<close>

definition ex_live_state :: mstate where
  "ex_live_state = ex_mstate
     \<lparr>queue_objs := (\<lambda>q. \<lparr>queue = (if q = 0 then [ex_ready_item] else []), dynamic = False\<rparr>),
      pipeline_queues := [0]\<rparr>"

section \<open>Properties of the serialisation\<close>

lemma hexval_hexdigit: "d < 16 \<Longrightarrow> hexval (hexdigit d) = Some d"
  by (auto simp: hexval_def hexdigit_def)

lemma hex_digits_sum:
  "n < 0x10000 \<Longrightarrow>
     ((n div 4096 mod 16 * 16 + n div 256 mod 16) * 16 + n div 16 mod 16) * 16 + n mod 16 = (n::nat)"
proof -
  assume n: "n < 0x10000"
  define a where "a = n div 16"
  define b where "b = a div 16"
  define c where "c = b div 16"
  have 1: "n div 256 = b" "n div 4096 = c" "n div 16 = a"
    by (simp_all add: a_def b_def c_def div_mult2_eq)
  have 2: "c < 16" using n unfolding 1(2)[symmetric] by simp
  have 3: "n = a * 16 + n mod 16" "a = b * 16 + a mod 16" "b = c * 16 + b mod 16"
    by (simp_all add: a_def b_def c_def)
  show ?thesis unfolding 1 using 2 3 by simp
qed

lemma decode_hex4: "n < 0x10000 \<Longrightarrow> decode_uXXXX (hex4 n @ r) = Some n"
  using hex_digits_sum[of n] by (simp add: decode_uXXXX_def hex4_def hexval_hexdigit)

lemma push_or_add:
  assumes "b < 1024"
  shows "push_bit 10 a OR b = a * 1024 + (b::nat)"
proof -
  have b: "take_bit 10 b = b" using assms by (simp add: take_bit_eq_mod)
  have "push_bit 10 a AND take_bit 10 b = 0"
    by (rule bit_eqI) (auto simp: bit_simps)
  then have "push_bit 10 a + b = push_bit 10 a OR b"
    unfolding b by (rule disjunctive_add_eq_or)
  then show ?thesis by (simp add: push_bit_eq_mult)
qed

lemma and_3FF: "(x::nat) AND 0x3FF = x mod 1024"
proof -
  have m: "mask 10 = (1023::nat)" by (simp add: mask_eq_exp_minus_1)
  have "x AND 1023 = x AND mask 10" by (simp only: m)
  also have "\<dots> = take_bit 10 x" by (simp only: take_bit_eq_mask)
  also have "\<dots> = x mod 1024" by (simp add: take_bit_eq_mod)
  finally show ?thesis .
qed

lemma high_surrogate: "(0xD800::nat) OR (drop_bit 10 n AND 0x3FF) = 0xD800 + n div 1024 mod 1024"
proof -
  have "(0xD800::nat) = push_bit 10 54" by (simp add: push_bit_eq_mult)
  then show ?thesis
    using push_or_add[of "n div 1024 mod 1024" 54]
    by (simp add: and_3FF drop_bit_eq_div)
qed

lemma low_surrogate: "(0xDC00::nat) OR (n AND 0x3FF) = 0xDC00 + n mod 1024"
proof -
  have "(0xDC00::nat) = push_bit 10 55" by (simp add: push_bit_eq_mult)
  then show ?thesis
    using push_or_add[of "n mod 1024" 55]
    by (simp add: and_3FF)
qed

lemma length_hex4: "length (hex4 n) = 4"
  by (simp add: hex4_def)

lemma escape_u:
  assumes "c < 0x10000" "\<not> (32 \<le> c \<and> c \<le> 126)" "c \<notin> {8, 9, 10, 12, 13}"
  shows "escape_char c = 92 # 117 # hex4 c"
  using assms by (auto simp: escape_char_def)

lemma escape_pair:
  assumes "\<not> c < 0x10000"
  shows "escape_char c = 92 # 117 # hex4 (0xD800 + (c - 0x10000) div 1024 mod 1024)
                       @ 92 # 117 # hex4 (0xDC00 + (c - 0x10000) mod 1024)"
  using assms by (auto simp: escape_char_def Let_def high_surrogate low_surrogate)

lemma scan_u_single:
  assumes uni: "c < 0x10000"
    and nopair: "is_high c \<Longrightarrow> take 2 T = [92, 117] \<Longrightarrow>
                   \<exists>x. decode_uXXXX (drop 2 T) = Some x \<and> \<not> is_low x"
  shows "scanstring acc (92 # 117 # hex4 c @ T) = scanstring (acc @ [c]) T"
proof -
  define es where "es = hex4 c @ T"
  have d4: "drop 4 es = T" "drop 6 es = drop 2 T"
    by (simp_all add: es_def length_hex4)
  have dec: "decode_uXXXX es = Some c"
    unfolding es_def using uni by (rule decode_hex4)
  have "scanstring acc (92 # 117 # es) = scanstring (acc @ [c]) T"
  proof (cases "is_high c \<and> take 2 T = [92, 117]")
    case False
    then show ?thesis
      by (auto simp: dec d4 is_high_def)
  next
    case True
    with nopair obtain x where x: "decode_uXXXX (drop 2 T) = Some x" "\<not> is_low x"
      by blast
    with True show ?thesis
      by (auto simp: dec d4 is_high_def is_low_def)
  qed
  then show ?thesis unfolding es_def .
qed

lemma scan_u_pair:
  assumes "\<not> c < 0x10000" "c < 0x110000"
  shows "scanstring acc (92 # 117 # hex4 (0xD800 + (c - 0x10000) div 1024 mod 1024)
                       @ 92 # 117 # hex4 (0xDC00 + (c - 0x10000) mod 1024) @ T)
         = scanstring (acc @ [c]) T"
proof -
  define n where "n = c - 0x10000"
  have n: "n < 0x100000" "c = 0x10000 + n" using assms by (simp_all add: n_def)
  define s1 where "s1 = 0xD800 + n div 1024 mod 1024"
  define s2 where "s2 = 0xDC00 + n mod 1024"
  define es where "es = hex4 s1 @ 92 # 117 # hex4 s2 @ T"
  have s1: "s1 < 0x10000" "0xD800 \<le> s1" "s1 \<le> 0xDBFF"
    and s2: "s2 < 0x10000" "0xDC00 \<le> s2" "s2 \<le> 0xDFFF"
    by (simp_all add: s1_def s2_def)
  have dec1: "decode_uXXXX es = Some s1"
    unfolding es_def using s1(1) by (rule decode_hex4)
  have d: "take 2 (drop 4 es) = [92, 117]" "drop 6 es = hex4 s2 @ T" "drop 10 es = T"
    by (simp_all add: es_def length_hex4)
  have dec2: "decode_uXXXX (drop 6 es) = Some s2"
    unfolding d using s2(1) by (rule decode_hex4)
  have small: "n div 1024 mod 1024 = n div 1024" using n(1) by simp
  have val: "0x10000 + (push_bit 10 (s1 - 0xD800) OR (s2 - 0xDC00)) = c"
    using push_or_add[of "n mod 1024" "n div 1024"] n(2) by (simp add: small s1_def s2_def)
  have "scanstring acc (92 # 117 # es) = scanstring (acc @ [c]) T"
    using s1 s2 by (simp add: dec1 dec2 d(1,3) val)
  then show ?thesis unfolding es_def s1_def s2_def n_def by simp
qed

lemma char_class:
  "c \<in> {8, 9, 10, 12, 13, 34, 92}
   \<or> (32 \<le> c \<and> c \<le> 126) \<and> c \<notin> {34, 92}
   \<or> c < 0x10000 \<and> \<not> (32 \<le> c \<and> c \<le> 126) \<and> c \<notin> {8, 9, 10, 12, 13}
   \<or> \<not> c < (0x10000::nat)"
  by auto

lemma scan_short:
  "c \<in> {8, 9, 10, 12, 13, 34, 92} \<Longrightarrow>
     scanstring acc (escape_char c @ T) = scanstring (acc @ [c]) T"
  by (auto simp: escape_char_def backslash_def)

lemma scan_plain:
  "32 \<le> c \<and> c \<le> 126 \<Longrightarrow> c \<notin> {34, 92} \<Longrightarrow>
     scanstring acc (escape_char c @ T) = scanstring (acc @ [c]) T"
  by (auto simp: escape_char_def)

lemma scan_step:
  assumes valid: "valid_codepoint c"
    and nopair: "is_high c \<Longrightarrow> take 2 T = [92, 117] \<Longrightarrow>
                   \<exists>x. decode_uXXXX (drop 2 T) = Some x \<and> \<not> is_low x"
  shows "scanstring acc (escape_char c @ T) = scanstring (acc @ [c]) T"
proof -
  from char_class[of c] consider (short) "c \<in> {8, 9, 10, 12, 13, 34, 92}"
    | (plain) "32 \<le> c \<and> c \<le> 126" "c \<notin> {34, 92}"
    | (single) "c < 0x10000" "\<not> (32 \<le> c \<and> c \<le> 126)" "c \<notin> {8, 9, 10, 12, 13}"
    | (pair) "\<not> c < 0x10000"
    by blast
  then show ?thesis
  proof cases
    case short
    then show ?thesis by (rule scan_short)
  next
    case plain
    then show ?thesis by (rule scan_plain)
  next
    case single
    show ?thesis
      unfolding escape_u[OF single] append_Cons
      by (rule scan_u_single[OF single(1) nopair])
  next
    case pair
    from valid have "c < 0x110000" by (simp add: valid_codepoint_def)
    with pair show ?thesis
      unfolding escape_pair[OF pair] append_Cons append_assoc
      by (rule scan_u_pair)
  qed
qed

lemma first_short:
  "c \<in> {8, 9, 10, 12, 13, 34, 92} \<Longrightarrow> take 2 (escape_char c @ T) \<noteq> [92, 117]"
  by (auto simp: escape_char_def)

lemma first_plain:
  "32 \<le> c \<and> c \<le> 126 \<Longrightarrow> c \<notin> {34, 92} \<Longrightarrow> take 2 (escape_char c @ T) \<noteq> [92, 117]"
  by (auto simp: escape_char_def)

lemma first_escape:
  assumes "take 2 (concat (map escape_char s) @ 34 # rest) = [92, 117]"
  shows "\<exists>x. decode_uXXXX (drop 2 (concat (map escape_char s) @ 34 # rest)) = Some x
             \<and> (is_low x \<longrightarrow> s \<noteq> [] \<and> is_low (hd s))"
proof (cases s)
  case Nil
  with assms show ?thesis by simp
next
  case (Cons c s')
  define T where "T = concat (map escape_char s') @ 34 # rest"
  have whole: "concat (map escape_char s) @ 34 # rest = escape_char c @ T"
    by (simp add: Cons T_def)
  from char_class[of c] consider (short) "c \<in> {8, 9, 10, 12, 13, 34, 92}"
    | (plain) "32 \<le> c \<and> c \<le> 126" "c \<notin> {34, 92}"
    | (single) "c < 0x10000" "\<not> (32 \<le> c \<and> c \<le> 126)" "c \<notin> {8, 9, 10, 12, 13}"
    | (pair) "\<not> c < 0x10000"
    by blast
  then show ?thesis
  proof cases
    case short
    from first_short[OF this, of T] assms show ?thesis unfolding whole by simp
  next
    case plain
    from first_plain[OF this, of T] assms show ?thesis unfolding whole by simp
  next
    case single
    have "decode_uXXXX (hex4 c @ T) = Some c"
      using single(1) by (rule decode_hex4)
    then show ?thesis
      unfolding whole escape_u[OF single] by (simp add: Cons)
  next
    case pair
    define s1 where "s1 = 0xD800 + (c - 0x10000) div 1024 mod 1024"
    define T2 where "T2 = 92 # 117 # hex4 (0xDC00 + (c - 0x10000) mod 1024) @ T"
    have s1: "s1 < 0x10000" "\<not> is_low s1" by (simp_all add: s1_def is_low_def)
    have "decode_uXXXX (hex4 s1 @ T2) = Some s1"
      using s1(1) by (rule decode_hex4)
    moreover have "escape_char c @ T = 92 # 117 # hex4 s1 @ T2"
      unfolding escape_pair[OF pair] s1_def T2_def by simp
    ultimately show ?thesis
      unfolding whole using s1(2) by simp
  qed
qed

lemma pair_free_tl: "pair_free (c # s) \<Longrightarrow> pair_free s"
  by (cases s) simp_all

lemma pair_free_hd: "pair_free (c # s) \<Longrightarrow> is_high c \<Longrightarrow> s \<noteq> [] \<Longrightarrow> \<not> is_low (hd s)"
  by (cases s) simp_all

lemma scan_escaped:
  "list_all valid_codepoint s \<Longrightarrow> pair_free s \<Longrightarrow>
     scanstring acc (concat (map escape_char s) @ 34 # rest) = Inr (acc @ s, rest)"
proof (induction s arbitrary: acc)
  case Nil
  show ?case by simp
next
  case (Cons c s)
  define T where "T = concat (map escape_char s) @ 34 # rest"
  have nopair: "\<exists>x. decode_uXXXX (drop 2 T) = Some x \<and> \<not> is_low x"
    if "is_high c" "take 2 T = [92, 117]"
    using first_escape[of s rest] that pair_free_hd[OF Cons.prems(2)] unfolding T_def by blast
  have v: "valid_codepoint c" "list_all valid_codepoint s" using Cons.prems(1) by simp_all
  have "scanstring acc (escape_char c @ T) = scanstring (acc @ [c]) T"
    using v(1) nopair by (rule scan_step)
  also have "\<dots> = Inr ((acc @ [c]) @ s, rest)"
    unfolding T_def using v(2) pair_free_tl[OF Cons.prems(2)] by (rule Cons.IH)
  finally have "scanstring acc (escape_char c @ T) = Inr (acc @ c # s, rest)" by simp
  then show ?case unfolding T_def by simp
qed

lemma ascii_simps: "ascii []" "ascii (c # s) = (c < 128 \<and> ascii s)"
  "ascii (s @ t) = (ascii s \<and> ascii t)"
  by (simp_all add: ascii_def)

lemma hexdigit_ascii: "d < 16 \<Longrightarrow> hexdigit d < 128"
  by (simp add: hexdigit_def)

lemma hex4_ascii: "ascii (hex4 n)"
  by (simp add: hex4_def ascii_simps hexdigit_ascii)

lemma escape_ascii: "ascii (escape_char c)"
  by (simp add: escape_char_def Let_def ascii_simps hex4_ascii)

lemma concat_escape_ascii: "ascii (concat (map escape_char s))"
  by (induction s) (simp_all add: ascii_simps escape_ascii)

lemma basestring_ascii: "ascii (encode_basestring_ascii s)"
  by (simp add: encode_basestring_ascii_def ascii_simps concat_escape_ascii)

lemma join_items_ascii: "ascii (join_items (map encode_basestring_ascii hs))"
  by (induction hs rule: join_items.induct) (simp_all add: ascii_simps basestring_ascii)

lemma json_dumps_ascii: "ascii (json_dumps hs)"
  by (simp add: json_dumps_def ascii_simps join_items_ascii)

lemma encode_ascii: "ascii s \<Longrightarrow> encode_utf8 s = Inr (map char_of s)"
  by (induction s) (simp_all add: ascii_simps utf8_char_def)

lemma decode_ascii: "ascii s \<Longrightarrow> decode_utf8 (map char_of s) = Inr s"
  by (induction s) (simp_all add: ascii_simps)

lemma holdersToData_total: "holdersToData hs = Inr (map char_of (json_dumps hs))"
  unfolding holdersToData_def using json_dumps_ascii by (rule encode_ascii)

lemma json_dumps_nonempty: "json_dumps hs \<noteq> []"
  by (simp add: json_dumps_def)

lemma holdersFromData_dumps:
  "holdersFromData (Some (map char_of (json_dumps hs))) = json_loads (json_dumps hs)"
  by (simp add: holdersFromData_def json_dumps_nonempty decode_ascii[OF json_dumps_ascii])

lemma skip_ws_start: "\<not> is_ws c \<Longrightarrow> skip_ws (c # s) = c # s"
  by (simp add: skip_ws_def)

lemma parse_item_last:
  "scanstring [] body = Inr (s, 93 # rest) \<Longrightarrow> parse_items acc (34 # body) = Inr (acc @ [s], rest)"
  by (simp add: skip_ws_start is_ws_def)

lemma parse_item_more:
  "scanstring [] body = Inr (s, 44 # 32 # 34 # R) \<Longrightarrow>
     parse_items acc (34 # body) = parse_items (acc @ [s]) (34 # R)"
  by (simp add: skip_ws_def is_ws_def)

lemma joined_start:
  "\<exists>R. join_items (map encode_basestring_ascii (h # hs)) @ t = 34 # R"
  by (cases hs) (simp_all add: encode_basestring_ascii_def)

lemma parse_items_joined:
  "list_all valid_str (h # hs) \<Longrightarrow> list_all pair_free (h # hs) \<Longrightarrow>
     parse_items acc (join_items (map encode_basestring_ascii (h # hs)) @ 93 # rest)
       = Inr (acc @ h # hs, rest)"
proof (induction hs arbitrary: acc h)
  case Nil
  then have h: "list_all valid_codepoint h" "pair_free h" by (simp_all add: valid_str_def)
  have e: "join_items (map encode_basestring_ascii [h]) @ 93 # rest
      = 34 # concat (map escape_char h) @ 34 # 93 # rest"
    by (simp add: encode_basestring_ascii_def)
  have "scanstring [] (concat (map escape_char h) @ 34 # 93 # rest) = Inr ([] @ h, 93 # rest)"
    using h by (rule scan_escaped)
  then have "scanstring [] (concat (map escape_char h) @ 34 # 93 # rest) = Inr (h, 93 # rest)"
    by simp
  then show ?case unfolding e by (rule parse_item_last)
next
  case (Cons h' hs)
  then have h: "list_all valid_codepoint h" "pair_free h" by (simp_all add: valid_str_def)
  from joined_start[of h' hs "93 # rest"] obtain R where
    R: "join_items (map encode_basestring_ascii (h' # hs)) @ 93 # rest = 34 # R" by blast
  have "join_items (map encode_basestring_ascii (h # h' # hs)) @ 93 # rest
      = 34 # concat (map escape_char h) @ 34 # 44 # 32 #
          (join_items (map encode_basestring_ascii (h' # hs)) @ 93 # rest)"
    by (simp add: encode_basestring_ascii_def)
  then have e: "join_items (map encode_basestring_ascii (h # h' # hs)) @ 93 # rest
      = 34 # concat (map escape_char h) @ 34 # 44 # 32 # 34 # R"
    unfolding R .
  have "parse_items (acc @ [h]) (join_items (map encode_basestring_ascii (h' # hs)) @ 93 # rest)
      = Inr ((acc @ [h]) @ h' # hs, rest)"
    using Cons.prems by (intro Cons.IH) simp_all
  then have rec: "parse_items (acc @ [h]) (34 # R) = Inr (acc @ h # h' # hs, rest)"
    unfolding R by simp
  have "scanstring [] (concat (map escape_char h) @ 34 # 44 # 32 # 34 # R)
      = Inr ([] @ h, 44 # 32 # 34 # R)"
    using h by (rule scan_escaped)
  then have "scanstring [] (concat (map escape_char h) @ 34 # 44 # 32 # 34 # R)
      = Inr (h, 44 # 32 # 34 # R)"
    by simp
  then have "parse_items acc (34 # concat (map escape_char h) @ 34 # 44 # 32 # 34 # R)
      = parse_items (acc @ [h]) (34 # R)"
    by (rule parse_item_more)
  then show ?case unfolding e rec .
qed

lemma json_loads_array:
  "parse_items [] (34 # R) = Inr (vs, []) \<Longrightarrow> json_loads (91 # 34 # R) = Inr vs"
  by (simp add: json_loads_def skip_ws_def is_ws_def)

lemma json_round_trip:
  assumes "list_all valid_str hs" "list_all pair_free hs"
  shows "json_loads (json_dumps hs) = Inr hs"
proof (cases hs)
  case Nil
  then show ?thesis
    by (simp add: json_loads_def json_dumps_def skip_ws_def is_ws_def)
next
  case (Cons h hs')
  from joined_start[of h hs' "[93]"] obtain R where
    R: "join_items (map encode_basestring_ascii (h # hs')) @ [93] = 34 # R" by blast
  have "parse_items [] (join_items (map encode_basestring_ascii (h # hs')) @ 93 # [])
      = Inr ([] @ h # hs', [])"
    using assms unfolding Cons by (rule parse_items_joined)
  then have "parse_items [] (34 # R) = Inr (hs, [])"
    unfolding R Cons by simp
  then have "json_loads (91 # 34 # R) = Inr hs"
    by (rule json_loads_array)
  then show ?thesis unfolding json_dumps_def Cons R .
qed

lemma holders_round_trip_aux:
  assumes "list_all valid_str hs" "list_all pair_free hs"
  shows "holdersFromData (Some (map char_of (json_dumps hs))) = Inr hs"
  unfolding holdersFromData_dumps using assms by (rule json_round_trip)

section \<open>Properties of the semaphore handler\<close>

lemma cas_log_interfere: "cas_log (interfere w) = cas_log w"
  by (simp add: interfere_def split: list.splits)

lemma zk_set_ok:
  "zk_set p d v w = (Inr u, w1) \<Longrightarrow>
     nodes w1 p = Some (Some d, Suc v) \<and> cas_log w1 = cas_log w @ [(p, d, v)]"
  by (auto simp: zk_set_def Let_def cas_log_interfere split: option.splits prod.splits if_splits)

lemma zk_set_fail:
  "zk_set p d v w = (Inl e, w1) \<Longrightarrow> w1 = interfere w"
  by (auto simp: zk_set_def Let_def split: option.splits prod.splits if_splits)

lemma getHolders_world: "getHolders p w = (r, w1) \<Longrightarrow> w1 = interfere w"
  by (auto simp: getHolders_def zk_get_def Let_def split: option.splits prod.splits sum.splits)

lemma zk_ensure_path_log: "cas_log (zk_ensure_path p w) = cas_log w"
  by (simp add: zk_ensure_path_def Let_def cas_log_interfere split: option.splits)

lemma acquire_loop_outcome:
  "acquire_loop sh p h n hs v w = (r, w') \<Longrightarrow>
     (r = Inr True \<and>
        (\<exists>hs' d v'. int (length hs') < max_count' sh n \<and> holdersToData (hs' @ [h]) = Inr d \<and>
           nodes w' p = Some (Some d, Suc v') \<and> cas_log w' = cas_log w @ [(p, d, v')]))
     \<or> (r \<noteq> Inr True \<and> cas_log w' = cas_log w)"
proof (induction sh p h n hs v w rule: acquire_loop.induct)
  case (1 sh p h n hs v w)
  show ?case
  proof (cases "int (length hs) < max_count' sh n")
    case False
    with "1.prems" show ?thesis by (auto simp: acquire_loop.simps[of sh p h n hs v w])
  next
    case room: True
    show ?thesis
    proof (cases "holdersToData (hs @ [h])")
      case (Inl e)
      with room "1.prems" show ?thesis by (auto simp: acquire_loop.simps[of sh p h n hs v w])
    next
      case (Inr d)
      obtain x w1 where st: "zk_set p d v w = (x, w1)" by (cases "zk_set p d v w")
      show ?thesis
      proof (cases x)
        case (Inr u)
        with room \<open>holdersToData (hs @ [h]) = Inr d\<close> st "1.prems"
        have "r = Inr True" "w' = w1" by (simp_all add: acquire_loop.simps[of sh p h n hs v w])
        with zk_set_ok[of p d v w u w1] st Inr room \<open>holdersToData (hs @ [h]) = Inr d\<close>
        show ?thesis by auto
      next
        case (Inl e)
        show ?thesis
        proof (cases "e = BadVersionError")
          case False
          with Inl room \<open>holdersToData (hs @ [h]) = Inr d\<close> st "1.prems"
          have "r = Inl e" "w' = w1" by (simp_all add: acquire_loop.simps[of sh p h n hs v w])
          with zk_set_fail[of p d v w e w1] st Inl show ?thesis by (simp add: cas_log_interfere)
        next
          case bad: True
          have w1: "w1 = interfere w" using zk_set_fail[of p d v w e w1] st Inl by simp
          obtain y w2 where gh: "getHolders p w1 = (y, w2)" by (cases "getHolders p w1")
          have w2: "cas_log w2 = cas_log w"
            using getHolders_world[OF gh] w1 by (simp add: cas_log_interfere)
          show ?thesis
          proof (cases y)
            case (Inl e2)
            with bad \<open>x = Inl e\<close> room \<open>holdersToData (hs @ [h]) = Inr d\<close> st gh "1.prems"
            have "r = Inl e2" "w' = w2" by (simp_all add: acquire_loop.simps[of sh p h n hs v w])
            with w2 show ?thesis by simp
          next
            case (Inr hv)
            obtain hs2 v2 where hv: "hv = (hs2, v2)" by (cases hv)
            with Inr bad \<open>x = Inl e\<close> room \<open>holdersToData (hs @ [h]) = Inr d\<close> st gh "1.prems"
            have rec: "acquire_loop sh p h n hs2 v2 w2 = (r, w')"
              by (simp add: acquire_loop.simps[of sh p h n hs v w])
            from "1.IH"[OF room \<open>holdersToData (hs @ [h]) = Inr d\<close> st[symmetric] \<open>x = Inl e\<close> bad
                gh[symmetric] Inr hv[symmetric] rec] w2
            show ?thesis by simp
          qed
        qed
      qed
    qed
  qed
qed


declare acquire_loop.simps [simp del]
declare release_loop.simps [simp del]

lemma acquire_loop_full:
  "max_count' sh n \<le> int (length hs) \<Longrightarrow> acquire_loop sh p h n hs v w = (Inr False, w)"
  by (simp add: acquire_loop.simps[of sh p h n hs v w])

lemma acquire_loop_retry:
  "\<lbrakk>int (length hs) < max_count' sh n; holdersToData (hs @ [h]) = Inr d;
    zk_set p d v w = (Inl BadVersionError, w1); getHolders p w1 = (Inr (hs2, v2), w2)\<rbrakk>
   \<Longrightarrow> acquire_loop sh p h n hs v w = acquire_loop sh p h n hs2 v2 w2"
  by (simp add: acquire_loop.simps[of sh p h n hs v w])

lemma acquire_enters_loop:
  "\<lbrakk>job_semaphore j = Some js; \<not> (resources_first js \<and> rr);
    semaphore_path_of sh (sem_name js) = Inr p;
    getHolders p (zk_ensure_path p w) = (Inr (hs, v), w1);
    semaphore_handle_of item_uuid j \<notin> set hs\<rbrakk>
   \<Longrightarrow> acquire sh item_uuid j rr w =
         acquire_loop sh p (semaphore_handle_of item_uuid j) (sem_name js) hs v w1"
  by (auto simp: acquire_def Let_def)

lemma acquire_outcome:
  assumes js: "job_semaphore j = Some js"
    and run: "acquire sh item_uuid j rr w = (r, w')"
  shows "cas_log w' = cas_log w \<or>
     (r = Inr True \<and>
      (\<exists>p hs d v. semaphore_path_of sh (sem_name js) = Inr p \<and>
         int (length hs) < max_count' sh (sem_name js) \<and>
         holdersToData (hs @ [semaphore_handle_of item_uuid j]) = Inr d \<and>
         cas_log w' = cas_log w @ [(p, d, v)] \<and>
         nodes w' p = Some (Some d, Suc v)))"
proof (cases "resources_first js \<and> rr")
  case True
  with js run show ?thesis by (auto simp: acquire_def)
next
  case skip: False
  show ?thesis
  proof (cases "semaphore_path_of sh (sem_name js)")
    case (Inl e)
    with js skip run show ?thesis by (auto simp: acquire_def)
  next
    case (Inr p)
    obtain y w1 where gh: "getHolders p (zk_ensure_path p w) = (y, w1)"
      by (cases "getHolders p (zk_ensure_path p w)")
    have log1: "cas_log w1 = cas_log w"
      using getHolders_world[OF gh] by (simp add: cas_log_interfere zk_ensure_path_log)
    show ?thesis
    proof (cases y)
      case (Inl e)
      with js skip Inr gh run have "w' = w1" by (auto simp: acquire_def Let_def)
      with log1 show ?thesis by simp
    next
      case hv: (Inr hv)
      obtain hs v where hv2: "hv = (hs, v)" by (cases hv)
      show ?thesis
      proof (cases "semaphore_handle_of item_uuid j \<in> set hs")
        case True
        with js skip Inr gh hv hv2 run have "w' = w1" by (auto simp: acquire_def Let_def)
        with log1 show ?thesis by simp
      next
        case False
        with js skip Inr gh hv hv2 run
        have "acquire_loop sh p (semaphore_handle_of item_uuid j) (sem_name js) hs v w1 = (r, w')"
          by (auto simp: acquire_def Let_def)
        from acquire_loop_outcome[OF this] log1 Inr show ?thesis by auto
      qed
    qed
  qed
qed


lemma acquire_loop_cong:
  "max_count' sh' n = max_count' sh n \<Longrightarrow>
     acquire_loop sh' p h n hs v w = acquire_loop sh p h n hs v w"
proof (induction sh p h n hs v w rule: acquire_loop.induct)
  case (1 sh p h n hs v w)
  show ?case
  proof (cases "int (length hs) < max_count' sh n")
    case False
    with "1.prems" show ?thesis
      by (simp add: acquire_loop.simps[of sh p h n hs v w] acquire_loop.simps[of sh' p h n hs v w])
  next
    case room: True
    show ?thesis
    proof (cases "holdersToData (hs @ [h])")
      case (Inl e)
      with room "1.prems" show ?thesis
        by (simp add: acquire_loop.simps[of sh p h n hs v w] acquire_loop.simps[of sh' p h n hs v w])
    next
      case d: (Inr d)
      obtain x w1 where st: "zk_set p d v w = (x, w1)" by (cases "zk_set p d v w")
      show ?thesis
      proof (cases x)
        case (Inr u)
        with room d st "1.prems" show ?thesis
          by (simp add: acquire_loop.simps[of sh p h n hs v w] acquire_loop.simps[of sh' p h n hs v w])
      next
        case (Inl e)
        show ?thesis
        proof (cases "e = BadVersionError")
          case False
          with Inl room d st "1.prems" show ?thesis
            by (simp add: acquire_loop.simps[of sh p h n hs v w]
                acquire_loop.simps[of sh' p h n hs v w])
        next
          case bad: True
          obtain y w2 where gh: "getHolders p w1 = (y, w2)" by (cases "getHolders p w1")
          show ?thesis
          proof (cases y)
            case (Inl e2)
            with bad \<open>x = Inl e\<close> room d st gh "1.prems" show ?thesis
              by (simp add: acquire_loop.simps[of sh p h n hs v w]
                  acquire_loop.simps[of sh' p h n hs v w])
          next
            case (Inr hv)
            obtain hs2 v2 where hv: "hv = (hs2, v2)" by (cases hv)
            from "1.IH"[OF room d st[symmetric] \<open>x = Inl e\<close> bad gh[symmetric] Inr hv[symmetric]
                "1.prems"]
            have "acquire_loop sh' p h n hs2 v2 w2 = acquire_loop sh p h n hs2 v2 w2" .
            with hv Inr bad \<open>x = Inl e\<close> room d st gh "1.prems" show ?thesis
              by (simp add: acquire_loop.simps[of sh p h n hs v w]
                  acquire_loop.simps[of sh' p h n hs v w])
          qed
        qed
      qed
    qed
  qed
qed

lemma acquire_cong:
  assumes js: "job_semaphore j = Some js"
    and mc: "max_count' sh' (sem_name js) = max_count' sh (sem_name js)"
    and tr: "tenant_root sh' = tenant_root sh"
  shows "acquire sh' item_uuid j rr w = acquire sh item_uuid j rr w"
proof -
  have path: "semaphore_path_of sh' (sem_name js) = semaphore_path_of sh (sem_name js)"
    unfolding semaphore_path_of_def tr ..
  have loop: "acquire_loop sh' p h (sem_name js) hs v w1 = acquire_loop sh p h (sem_name js) hs v w1"
    for p h hs v w1
    using mc by (rule acquire_loop_cong)
  show ?thesis
    unfolding acquire_def js option.case path loop ..
qed


subsection \<open>Evaluation of the worked run\<close>

lemma ex_path_of: "semaphore_path_of ex_handler ex_sem_name = Inr ex_path"
  by (simp add: semaphore_path_of_def quote_plus_def ex_handler_def utf8_char_def quote_byte_def
      always_safe_def ex_sem_name_def ex_path_def)

lemma ex_handle_of: "semaphore_handle_of (py ''u'') ex_job = ex_handle"
  by (simp add: semaphore_handle_of_def ex_job_def ex_handle_def)

lemma ex_max: "max_count' ex_handler ex_sem_name = 2"
  by (simp add: max_count'_def ex_handler_def)

lemma ex_from_x: "holdersFromData (Some ex_data_x) = Inr [py ''x'']"
  by (simp add: holdersFromData_def ex_data_x_def json_loads_def skip_ws_def is_ws_def)

lemma ex_from_empty: "holdersFromData (Some []) = Inr []"
  by (simp add: holdersFromData_def)

lemma ex_to_u: "holdersToData ([] @ [ex_handle]) = Inr ex_data_u"
  by (simp add: holdersToData_def json_dumps_def encode_basestring_ascii_def escape_char_def
      utf8_char_def ex_data_u_def ex_handle_def char_of_eq_iff)

lemma ex_to_xu: "holdersToData ([py ''x''] @ [ex_handle]) = Inr ex_data_xu"
  by (simp add: holdersToData_def json_dumps_def encode_basestring_ascii_def escape_char_def
      utf8_char_def ex_data_xu_def ex_handle_def char_of_eq_iff)

lemma ex_read1: "getHolders ex_path (zk_ensure_path ex_path ex_world) = (Inr ([], 0), ex_world1)"
  by (simp add: getHolders_def zk_get_def zk_ensure_path_def interfere_def ex_world_def
      ex_world1_def ex_from_empty)

lemma ex_conflict: "zk_set ex_path ex_data_u 0 ex_world1 = (Inl BadVersionError, ex_world2)"
  by (simp add: zk_set_def interfere_def ex_world1_def ex_world2_def ex_overwrite_def)

lemma ex_read2: "getHolders ex_path ex_world2 = (Inr ([py ''x''], 1), ex_world2)"
  by (simp add: getHolders_def zk_get_def interfere_def ex_world2_def ex_from_x)

lemma ex_write: "acquire_loop ex_handler ex_path ex_handle ex_sem_name [py ''x''] 1 ex_world2
                   = (Inr True, ex_world3)"
  by (subst acquire_loop.simps)
    (simp add: ex_to_xu[simplified] ex_max zk_set_def interfere_def ex_world2_def ex_world3_def)

lemma acquire_loop_grant:
  assumes "int (length hs) < max_count' sh n" "holdersToData (hs @ [h]) = Inr d"
    "pending w = []" "nodes w p = Some (d0, v)"
  shows "acquire_loop sh p h n hs v w =
     (Inr True, w\<lparr>nodes := (nodes w)(p \<mapsto> (Some d, Suc v)),
                   cas_log := cas_log w @ [(p, d, v)]\<rparr>)"
  using assms
  by (simp add: acquire_loop.simps[of sh p h n hs v w] zk_set_def interfere_def)

lemma ex_other_path_of: "semaphore_path_of ex_handler (py ''other'') = Inr ex_other_path"
  by (simp add: semaphore_path_of_def quote_plus_def ex_handler_def utf8_char_def quote_byte_def
      always_safe_def ex_other_path_def)

lemma ex_other_handle_of: "semaphore_handle_of (py ''u'') ex_other_job = ex_handle"
  by (simp add: semaphore_handle_of_def ex_other_job_def ex_handle_def)

lemma ex_read_free:
  "getHolders ex_other_path (zk_ensure_path ex_other_path ex_free_world)
     = (Inr ([], 0), ex_free_world1)"
  by (simp add: getHolders_def zk_get_def zk_ensure_path_def interfere_def ex_free_world_def
      ex_free_world1_def ex_from_empty)

lemma ex_read_held:
  "getHolders ex_other_path (zk_ensure_path ex_other_path ex_held_world)
     = (Inr ([py ''x''], 1), ex_held_world)"
  by (simp add: getHolders_def zk_get_def zk_ensure_path_def interfere_def ex_held_world_def
      ex_from_x)
section \<open>Properties of the pipeline manager\<close>

subsection \<open>The caches after a tick\<close>

lemma getAllItems_maintainCache: "getAllItems (maintainCache' st) = getAllItems st"
  by (simp add: maintainCache'_def getAllItems_def Let_def)

lemma layout_cache_maintainCache:
  "layout_cache (maintainCache' st) uid =
     (if uid \<in> active_layout_uuids (getAllItems st) then layout_cache st uid else None)"
  by (auto simp: maintainCache'_def Let_def)

lemma change_cache_maintainCache:
  "change_cache (maintainCache' st) k =
     (if k \<in> referenced_change_keys (getAllItems st) then change_cache st k else None)"
  by (auto simp: maintainCache'_def Let_def)

lemma active_layout_uuids_referenced:
  "uid \<in> active_layout_uuids items \<Longrightarrow> \<exists>item\<in>set items. layout_uuid item = Some uid"
  by (auto simp: active_layout_uuids_def split: option.splits if_splits)

lemma maintainCache_layouts_kept:
  assumes "uid \<in> dom (layout_cache (maintainCache' st))"
  shows "uid \<in> dom (layout_cache st)
     \<and> (\<exists>item\<in>set (getAllItems (maintainCache' st)). layout_uuid item = Some uid)"
proof -
  from assms have act: "uid \<in> active_layout_uuids (getAllItems st)"
    and old: "uid \<in> dom (layout_cache st)"
    by (auto simp: layout_cache_maintainCache split: if_splits)
  from active_layout_uuids_referenced[OF act] old show ?thesis
    by (simp add: getAllItems_maintainCache)
qed

lemma processQueue_ends_with_maintainCache:
  "processQueue p st = Some (Inr (changed, st')) \<Longrightarrow> \<exists>st1. st' = maintainCache' st1"
  by (auto simp: processQueue_def split: option.splits sum.splits)

lemma ex_items: "getAllItems ex_cache_state = [ex_nonlive_item]"
  by (simp add: getAllItems_def ex_cache_state_def ex_mstate_def)

lemma ex_active: "active_layout_uuids [ex_nonlive_item] = {py ''L1''}"
  by (simp add: active_layout_uuids_def ex_nonlive_item_def new_item_def)

lemma ex_tick: "processQueue ex_idle ex_cache_state = Some (Inr (False, maintainCache' ex_cache_state))"
  by (simp add: processQueue_def process_queues.simps ex_idle_def ex_cache_state_def ex_mstate_def)

lemma ex_L1_kept: "layout_cache (maintainCache' ex_cache_state) (py ''L1'') = Some (ex_layout (py ''L1''))"
  by (simp add: layout_cache_maintainCache ex_items ex_active) (simp add: ex_cache_state_def)

lemma ex_L2_gone: "layout_cache (maintainCache' ex_cache_state) (py ''L2'') = None"
  by (simp add: layout_cache_maintainCache ex_items ex_active)

subsection \<open>Commit dependencies\<close>

lemma remdups_snoc: "remdups (ys @ [x]) = filter (\<lambda>y. y \<noteq> x) (remdups ys) @ [x]"
  by (induction ys) auto

lemma first_from_eq:
  "first_from S xs = rev (remdups (rev (filter (\<lambda>x. x \<notin> S) xs)))"
proof (induction xs arbitrary: S)
  case Nil
  show ?case by simp
next
  case (Cons x xs)
  show ?case
  proof (cases "x \<in> S")
    case True
    with Cons show ?thesis by simp
  next
    case False
    have "filter (\<lambda>y. y \<noteq> x) (filter (\<lambda>y. y \<notin> S) xs) = filter (\<lambda>y. y \<notin> insert x S) xs"
      by (induction xs) auto
    then have "rev (remdups (rev (x # filter (\<lambda>y. y \<notin> S) xs)))
        = x # rev (remdups (rev (filter (\<lambda>y. y \<notin> insert x S) xs)))"
      by (simp add: remdups_snoc rev_filter[symmetric] remdups_filter[symmetric])
    with False Cons[of "insert x S"] show ?thesis by simp
  qed
qed

lemma first_from_empty: "first_from {} xs = first_occurrences xs"
  by (simp add: first_from_eq first_occurrences_def)

lemma commit_dependencies_foldl:
  "commit_dependencies env ms seen deps =
     foldl (add_dep env) deps (List.map_filter (resolve_url env) (first_from seen ms))"
proof (induction ms arbitrary: seen deps)
  case Nil
  show ?case by (simp add: map_filter_simps)
next
  case (Cons m ms)
  show ?case
  proof (cases "m \<in> seen")
    case True
    with Cons show ?thesis by simp
  next
    case False
    show ?thesis
    proof (cases "resolve_url env m")
      case None
      have step: "commit_dependencies env (m # ms) seen deps =
          commit_dependencies env ms (insert m seen) deps"
        using False None
        by (auto simp: Let_def resolve_url_def split: option.splits)
      show ?thesis
        unfolding step using False None by (simp add: Cons map_filter_simps)
    next
      case (Some dep)
      have step: "commit_dependencies env (m # ms) seen deps =
          commit_dependencies env ms (insert m seen) (add_dep env deps dep)"
        using False Some
        by (auto simp: Let_def resolve_url_def add_dep_def split: option.splits)
      show ?thesis
        unfolding step using False Some by (simp add: Cons map_filter_simps)
    qed
  qed
qed

lemma foldl_add_dep:
  "foldl (add_dep env) deps ds =
     deps @ first_from (set deps) (filter (\<lambda>d. \<not> dep_is_merged env d) ds)"
proof (induction ds arbitrary: deps)
  case Nil
  show ?case by simp
next
  case (Cons d ds)
  consider (add) "\<not> dep_is_merged env d" "d \<notin> set deps"
    | (merged) "dep_is_merged env d" | (known) "\<not> dep_is_merged env d" "d \<in> set deps"
    by blast
  then show ?case
  proof cases
    case add
    then have "add_dep env deps d = deps @ [d]" by (simp add: add_dep_def)
    with add Cons[of "deps @ [d]"] show ?thesis by simp
  next
    case merged
    then have "add_dep env deps d = deps" by (simp add: add_dep_def)
    with merged Cons[of deps] show ?thesis by simp
  next
    case known
    then have "add_dep env deps d = deps" by (simp add: add_dep_def)
    with known Cons[of deps] show ?thesis by simp
  qed
qed

lemma commit_dependencies_spec:
  "map (dep_cache_key env)
     (commit_dependencies env (find_dependency_headers env (message c)) {} [])
   = spec_commit_needs_changes env c"
  by (simp add: commit_dependencies_foldl foldl_add_dep first_from_empty
      spec_commit_needs_changes_def)

lemma ex_spec_needs:
  "spec_commit_needs_changes ex_dep_env ex_dependent_change = [py ''A'']"
  by (simp add: spec_commit_needs_changes_def ex_dep_env_def ex_dependent_change_def
      ex_change_def first_occurrences_def map_filter_simps resolve_url_def)

subsection \<open>Reporting and the failure counter\<close>

lemma sendReport_pstate:
  "sendReport env actions item st = (errs, item', st') \<Longrightarrow> pstate st' = pstate st"
proof (induction actions arbitrary: item st errs item' st')
  case Nil
  then show ?case by simp
next
  case (Cons r actions)
  let ?st1 = "st\<lparr>reports := reports st @ [(r, item)]\<rparr>"
  show ?case
  proof (cases "reporter_report env r item")
    case (Returned ret)
    obtain e2 i2 s2 where rec: "sendReport env actions item ?st1 = (e2, i2, s2)"
      by (cases "sendReport env actions item ?st1") auto
    from Cons.prems Returned rec have "st' = s2"
      by (auto simp: Let_def split: option.splits if_splits)
    with Cons.IH[OF rec] show ?thesis by simp
  next
    case (Raised e)
    obtain e2 i2 s2 where rec:
      "sendReport env actions (setReportedResult (py ''ERROR'') item) ?st1 = (e2, i2, s2)"
      by (cases "sendReport env actions (setReportedResult (py ''ERROR'') item) ?st1") auto
    from Cons.prems Raised rec have "st' = s2"
      by (auto simp: Let_def)
    with Cons.IH[OF rec] show ?thesis by simp
  qed
qed

lemma getLayout_pstate:
  "getLayout env item st = (l, item', st') \<Longrightarrow> pstate st' = pstate st"
  by (auto simp: getLayout_def split: option.splits prod.splits)

lemma project_in_pipeline_of_pstate:
  "project_in_pipeline_of pl env item st = (pip, item', st') \<Longrightarrow> pstate st' = pstate st"
  by (auto simp: project_in_pipeline_of_def Let_def dest: getLayout_pstate
      split: if_splits option.splits prod.splits sum.splits)

lemma reportItem_counter:
  assumes run: "reportItem' pl env item st = (ret, item', st')"
    and pre: "project_in_pipeline_of pl env item st = (pip, item1, st1)"
    and sel: "reportItem_select pl pip item1 (pstate st) = (action, actions, item2, ps2)"
  shows "consecutive_failures (pstate st') = consecutive_failures ps2"
proof -
  have ps1: "pstate st1 = pstate st" using project_in_pipeline_of_pstate[OF pre] .
  let ?actions = "if pip \<and> disabled ps2 then disabled_actions pl else actions"
  let ?ps3 = "case disable_at pl of None \<Rightarrow> ps2
     | Some n \<Rightarrow> if n \<noteq> 0 \<and> \<not> disabled ps2 \<and> consecutive_failures ps2 \<ge> n
         then ps2\<lparr>disabled := True\<rparr> else ps2"
  let ?st3 = "st1\<lparr>pstate := ?ps3\<rparr>"
  have cf3: "consecutive_failures ?ps3 = consecutive_failures ps2"
    by (simp split: option.splits)
  show ?thesis
  proof (cases "?actions = []")
    case True
    with run pre sel ps1 have "pstate st' = ?ps3"
      by (auto simp: reportItem'_def Let_def)
    with cf3 show ?thesis by simp
  next
    case False
    obtain errs i4 s4 where sr: "sendReport env ?actions item2 ?st3 = (errs, i4, s4)"
      by (cases "sendReport env ?actions item2 ?st3") auto
    with False run pre sel ps1 have "pstate st' = pstate s4"
      by (auto simp: reportItem'_def Let_def)
    with sendReport_pstate[OF sr] cf3 show ?thesis by simp
  qed
qed

lemma reportItem_select_result:
  assumes "reportItem_select pl pip item ps = (action, actions, item2, ps2)"
  shows "\<exists>r. bs_result (current_build_set item2) = Some r
          \<and> r \<in> {py ''NO_JOBS'', py ''CONFIG_ERROR'', py ''MERGER_FAILURE'', py ''FAILURE'', py ''SUCCESS''}
          \<and> (r = py ''SUCCESS'' \<longrightarrow> consecutive_failures ps2 = 0)
          \<and> (r = py ''FAILURE'' \<longrightarrow> consecutive_failures ps2 =
                (if ans_didAllJobsSucceed item \<or> ans_wasDequeuedNeedingChange item
                    \<or> ans_cannotMergeBundle item
                 then consecutive_failures ps else consecutive_failures ps + 1))
          \<and> (r \<noteq> py ''SUCCESS'' \<and> r \<noteq> py ''FAILURE'' \<longrightarrow>
                consecutive_failures ps2 = consecutive_failures ps)"
  using assms
  by (auto simp: reportItem_select_def setReportedResult_def Let_def split: if_splits)

lemma ex_pre: "project_in_pipeline_of ex_pipeline ex_report_env ex_ready_item ex_mstate
    = (True, ex_ready_item, ex_mstate)"
  by (simp add: project_in_pipeline_of_def ex_ready_item_def)

lemma ex_select: "reportItem_select ex_pipeline True ex_ready_item (pstate ex_mstate)
    = (py ''failure'', [py ''gerrit''], setReportedResult (py ''FAILURE'') ex_ready_item,
       \<lparr>disabled = False, consecutive_failures = 1\<rparr>)"
  by (simp add: reportItem_select_def ex_ready_item_def new_item_def ex_pipeline_def ex_mstate_def
      setReportedResult_def)

lemma ex_report_run:
  "reportItem' ex_pipeline ex_report_env ex_ready_item ex_mstate =
     (ReportErrors [], setReportedResult (py ''FAILURE'') ex_ready_item,
      ex_mstate\<lparr>pstate := \<lparr>disabled = False, consecutive_failures = 1\<rparr>,
        reports := [(py ''gerrit'', setReportedResult (py ''FAILURE'') ex_ready_item)],
        sql_log := [(current_build_set (setReportedResult (py ''FAILURE'') ex_ready_item),
                     py ''failure'', True)]\<rparr>)"
  unfolding reportItem'_def ex_pre
  by (simp add: ex_select)
    (simp add: ex_pipeline_def ex_report_env_def ex_mstate_def)

subsection \<open>Lemmas on \<^verbatim>\<open>addChange\<close>\<close>














lemma restore_queue:
  "(queue_objs st)(q := (queue_objs st q)\<lparr>queue := queue (queue_objs st q)\<rparr>) = queue_objs st"
  by (rule ext) simp


















subsection \<open>The holders list never exceeds the capacity\<close>

text \<open>
  Claim C1. After a successful compare-and-swap write of \<open>acquire\<close> the node of the
  semaphore holds the serialisation of a holders list no longer than \<open>max_count'\<close>.
  For a job with a semaphore, a call of \<open>acquire\<close> either makes no successful
  \<^verbatim>\<open>set\<close> at all, or makes exactly one, returns true, and the data written (which
  the node holds when the call returns) is \<open>holdersToData (hs @ [handle])\<close> for a
  list \<open>hs\<close> with \<open>length hs < max_count'\<close>, hence of length at most
  \<open>max_count'\<close>. The call enters the loop with the list it read when the handle is not
  in it; the loop returns false without writing when the list is full; and after
  \<^verbatim>\<open>BadVersionError\<close> it reads the node again and goes on with the list and version
  just read.
\<close>

theorem acquire_holders_bounded:
  assumes "job_semaphore j = Some js"
  shows
    "(\<forall>r w'. acquire sh item_uuid j rr w = (r, w') \<longrightarrow>
        cas_log w' = cas_log w \<or>
        (r = Inr True \<and>
         (\<exists>p hs d v. semaphore_path_of sh (sem_name js) = Inr p \<and>
            int (length hs) < max_count' sh (sem_name js) \<and>
            holdersToData (hs @ [semaphore_handle_of item_uuid j]) = Inr d \<and>
            int (length (hs @ [semaphore_handle_of item_uuid j])) \<le> max_count' sh (sem_name js) \<and>
            cas_log w' = cas_log w @ [(p, d, v)] \<and>
            nodes w' p = Some (Some d, Suc v))))
     \<and> (\<forall>p hs v w1.
          \<not> (resources_first js \<and> rr) \<and> semaphore_path_of sh (sem_name js) = Inr p \<and>
          getHolders p (zk_ensure_path p w) = (Inr (hs, v), w1) \<and>
          semaphore_handle_of item_uuid j \<notin> set hs \<longrightarrow>
          acquire sh item_uuid j rr w =
            acquire_loop sh p (semaphore_handle_of item_uuid j) (sem_name js) hs v w1)
     \<and> (\<forall>p h hs v w1.
          max_count' sh (sem_name js) \<le> int (length hs) \<longrightarrow>
          acquire_loop sh p h (sem_name js) hs v w1 = (Inr False, w1))
     \<and> (\<forall>p h hs v w1 d w2 hs2 v2 w3.
          int (length hs) < max_count' sh (sem_name js) \<and> holdersToData (hs @ [h]) = Inr d \<and>
          zk_set p d v w1 = (Inl BadVersionError, w2) \<and>
          getHolders p w2 = (Inr (hs2, v2), w3) \<longrightarrow>
          acquire_loop sh p h (sem_name js) hs v w1 = acquire_loop sh p h (sem_name js) hs2 v2 w3)"
proof -
  let ?n = "sem_name js"
  let ?h = "semaphore_handle_of item_uuid j"
  have bound: "cas_log w' = cas_log w \<or>
        (r = Inr True \<and>
         (\<exists>p hs d v. semaphore_path_of sh ?n = Inr p \<and>
            int (length hs) < max_count' sh ?n \<and>
            holdersToData (hs @ [?h]) = Inr d \<and>
            int (length (hs @ [?h])) \<le> max_count' sh ?n \<and>
            cas_log w' = cas_log w @ [(p, d, v)] \<and>
            nodes w' p = Some (Some d, Suc v)))"
    if run: "acquire sh item_uuid j rr w = (r, w')" for r w'
  proof -
    from acquire_outcome[OF assms run] consider
      (quiet) "cas_log w' = cas_log w"
      | (wrote) p hs d v where "r = Inr True" "semaphore_path_of sh ?n = Inr p"
          "int (length hs) < max_count' sh ?n" "holdersToData (hs @ [?h]) = Inr d"
          "cas_log w' = cas_log w @ [(p, d, v)]" "nodes w' p = Some (Some d, Suc v)"
      by blast
    then show ?thesis
    proof cases
      case quiet
      then show ?thesis by (rule disjI1)
    next
      case wrote
      from wrote(3) have "int (length (hs @ [?h])) \<le> max_count' sh ?n" by simp
      with wrote show ?thesis by blast
    qed
  qed
  have enter: "acquire sh item_uuid j rr w = acquire_loop sh p ?h ?n hs v w1"
    if "\<not> (resources_first js \<and> rr) \<and> semaphore_path_of sh ?n = Inr p \<and>
          getHolders p (zk_ensure_path p w) = (Inr (hs, v), w1) \<and> ?h \<notin> set hs"
    for p and hs :: "pystr list" and v w1
    using that acquire_enters_loop[OF assms, of rr sh p w hs v w1 item_uuid] by blast
  have full: "acquire_loop sh p h ?n hs v w1 = (Inr False, w1)"
    if "max_count' sh ?n \<le> int (length hs)" for p h and hs :: "pystr list" and v w1
    using that by (rule acquire_loop_full)
  have retry: "acquire_loop sh p h ?n hs v w1 = acquire_loop sh p h ?n hs2 v2 w3"
    if "int (length hs) < max_count' sh ?n \<and> holdersToData (hs @ [h]) = Inr d \<and>
          zk_set p d v w1 = (Inl BadVersionError, w2) \<and>
          getHolders p w2 = (Inr (hs2, v2), w3)"
    for p h and hs :: "pystr list" and v w1 d w2 hs2 v2 w3
    using that acquire_loop_retry[of hs sh ?n h d p v w1 w2 hs2 v2 w3] by blast
  show ?thesis
    apply (intro conjI allI impI)
       apply (erule bound)
      apply (erule enter)
     apply (erule full)
    apply (erule retry)
    done
qed

text \<open>
  The worked run: the first \<^verbatim>\<open>set\<close> meets a version conflict, the second read
  finds the holder \<^verbatim>\<open>x\<close>, and the second \<^verbatim>\<open>set\<close> stores two holders for
  the capacity two. A list of two holders is full.
\<close>

theorem acquire_holders_bounded_witness:
  "job_semaphore ex_job = Some ex_js
   \<and> acquire ex_handler (py ''u'') ex_job False ex_world = (Inr True, ex_world3)
   \<and> cas_log ex_world3 = cas_log ex_world @ [(ex_path, ex_data_xu, 1)]
   \<and> nodes ex_world3 ex_path = Some (Some ex_data_xu, Suc 1)
   \<and> holdersToData ([py ''x''] @ [ex_handle]) = Inr ex_data_xu
   \<and> int (length ([py ''x''] @ [ex_handle])) \<le> max_count' ex_handler ex_sem_name
   \<and> acquire_loop ex_handler ex_path ex_handle ex_sem_name [py ''x'', py ''y''] 0 ex_world
       = (Inr False, ex_world)"
proof -
  have js: "job_semaphore ex_job = Some ex_js" by (simp add: ex_job_def)
  have nm: "sem_name ex_js = ex_sem_name" by (simp add: ex_js_def)
  have rf: "\<not> (resources_first ex_js \<and> False)" by simp
  have nh: "semaphore_handle_of (py ''u'') ex_job \<notin> set []" by simp
  note inst = acquire_holders_bounded[OF js, of ex_handler "py ''u''" False ex_world, unfolded nm ex_handle_of]
  from inst have enter: "acquire ex_handler (py ''u'') ex_job False ex_world =
      acquire_loop ex_handler ex_path ex_handle ex_sem_name [] 0 ex_world1"
    using ex_path_of ex_read1 by simp
  have lt: "int (length ([] :: pystr list)) < max_count' ex_handler ex_sem_name"
    using ex_max by simp
  from inst have "int (length ([] :: pystr list)) < max_count' ex_handler ex_sem_name \<and>
      holdersToData ([] @ [ex_handle]) = Inr ex_data_u \<and>
      zk_set ex_path ex_data_u 0 ex_world1 = (Inl BadVersionError, ex_world2) \<and>
      getHolders ex_path ex_world2 = (Inr ([py ''x''], 1), ex_world2) \<longrightarrow>
      acquire_loop ex_handler ex_path ex_handle ex_sem_name [] 0 ex_world1 =
      acquire_loop ex_handler ex_path ex_handle ex_sem_name [py ''x''] 1 ex_world2"
    by blast
  with lt ex_to_u ex_conflict ex_read2
  have retry: "acquire_loop ex_handler ex_path ex_handle ex_sem_name [] 0 ex_world1 =
      acquire_loop ex_handler ex_path ex_handle ex_sem_name [py ''x''] 1 ex_world2"
    by blast
  from inst have full: "acquire_loop ex_handler ex_path ex_handle ex_sem_name [py ''x'', py ''y''] 0 ex_world
       = (Inr False, ex_world)"
    using ex_max by simp
  have run: "acquire ex_handler (py ''u'') ex_job False ex_world = (Inr True, ex_world3)"
    using enter retry ex_write by simp
  show ?thesis
    using js run full ex_to_xu ex_max by (simp add: ex_world3_def ex_world_def)
qed

subsection \<open>Acquiring twice\<close>

text \<open>
  Claim C5. \<open>acquire\<close> is idempotent per handle: for a job with a semaphore, if the
  holders list the call reads from the node contains the handle
  \<^verbatim>\<open><item_uuid>-<job_name>\<close>, the call returns true and performs no
  \<^verbatim>\<open>set\<close>: the store it leaves is the store as it was read (the store it was given
  when no other client writes and the node exists), so the holders list is unchanged and
  the handle is not added a second time.
\<close>

theorem acquire_idempotent:
  assumes js: "job_semaphore j = Some js"
    and path: "semaphore_path_of sh (sem_name js) = Inr p"
    and rd: "getHolders p (zk_ensure_path p w) = (Inr (hs, v), w1)"
    and held: "semaphore_handle_of item_uuid j \<in> set hs"
  shows "acquire sh item_uuid j rr w = (Inr True, if resources_first js \<and> rr then w else w1)
     \<and> cas_log (snd (acquire sh item_uuid j rr w)) = cas_log w
     \<and> (\<exists>d. nodes w1 p = Some (d, v) \<and> holdersFromData d = Inr hs)
     \<and> (if pending w = [] \<and> nodes w p \<noteq> None then w1 = w else True)"
proof -
  have run: "acquire sh item_uuid j rr w = (Inr True, if resources_first js \<and> rr then w else w1)"
    using js path rd held by (auto simp: acquire_def Let_def)
  have w1: "w1 = interfere (zk_ensure_path p w)"
    using getHolders_world[OF rd] .
  have log: "cas_log w1 = cas_log w"
    using w1 by (simp add: cas_log_interfere zk_ensure_path_log)
  have node: "\<exists>d. nodes w1 p = Some (d, v) \<and> holdersFromData d = Inr hs"
    using getHolders_read[OF rd] by blast
  have quiet: "w1 = w" if "pending w = []" "nodes w p \<noteq> None"
    using that w1 by (auto simp: zk_ensure_path_def interfere_def Let_def)
  have log2: "cas_log (snd (acquire sh item_uuid j rr w)) = cas_log w"
    using run log by simp
  show ?thesis
    apply (intro conjI)
       apply (rule run)
      apply (rule log2)
     apply (rule node)
    apply (simp add: quiet)
    done
qed

text \<open>After the worked run the handle is among the holders; a second call changes nothing.\<close>

theorem acquire_idempotent_witness:
  "job_semaphore ex_job = Some ex_js
   \<and> semaphore_path_of ex_handler (sem_name ex_js) = Inr ex_path
   \<and> getHolders ex_path (zk_ensure_path ex_path ex_world3) = (Inr ([py ''x'', ex_handle], Suc (Suc 0)), ex_world3)
   \<and> semaphore_handle_of (py ''u'') ex_job \<in> set [py ''x'', ex_handle]
   \<and> acquire ex_handler (py ''u'') ex_job False ex_world3 = (Inr True, ex_world3)
   \<and> cas_log (snd (acquire ex_handler (py ''u'') ex_job False ex_world3)) = cas_log ex_world3"
proof -
  have js: "job_semaphore ex_job = Some ex_js" by (simp add: ex_job_def)
  have path: "semaphore_path_of ex_handler (sem_name ex_js) = Inr ex_path"
    using ex_path_of by (simp add: ex_js_def)
  have dec: "holdersFromData (Some ex_data_xu) = Inr [py ''x'', ex_handle]"
    by (simp add: holdersFromData_def ex_data_xu_def json_loads_def skip_ws_def is_ws_def
        ex_handle_def)
  have rd: "getHolders ex_path (zk_ensure_path ex_path ex_world3)
              = (Inr ([py ''x'', ex_handle], Suc (Suc 0)), ex_world3)"
    by (simp add: getHolders_def zk_get_def zk_ensure_path_def interfere_def ex_world3_def dec)
  have held: "semaphore_handle_of (py ''u'') ex_job \<in> set [py ''x'', ex_handle]"
    unfolding ex_handle_of by simp
  from acquire_idempotent[OF js path rd held, of False]
  show ?thesis using js path rd held by simp
qed

subsection \<open>A semaphore the layout does not define\<close>

text \<open>
  Claim C10. For a semaphore name that the layout's semaphores do not define,
  \<open>max_count'\<close> is 1, and \<open>acquire\<close> treats the semaphore as one of capacity
  exactly one. A call for a job with that semaphore that reads a list of holders without
  its handle: returns \<^verbatim>\<open>False\<close> and leaves the store as read when the list has a
  holder; and when the list is empty and no other client writes, it returns
  \<^verbatim>\<open>True\<close> and the node holds the list of the one handle, under the next version.
  Whatever other clients do, a \<^verbatim>\<open>set\<close> of the call that succeeds writes the list
  of the one handle and nothing else. The loop refuses as soon as the list read has a
  holder, and every call behaves as under the same layout extended by a definition of the
  semaphore with \<^verbatim>\<open>max\<close> 1.
\<close>

theorem max_count_unknown_semaphore:
  assumes "layout_semaphores sh n = None"
  shows "max_count' sh n = 1
     \<and> (\<forall>item_uuid j js rr w p hs v w1.
          job_semaphore j = Some js \<and> sem_name js = n \<and> \<not> (resources_first js \<and> rr)
          \<and> semaphore_path_of sh n = Inr p
          \<and> getHolders p (zk_ensure_path p w) = (Inr (hs, v), w1)
          \<and> semaphore_handle_of item_uuid j \<notin> set hs \<longrightarrow>
          (if hs = [] then
             pending w1 = [] \<longrightarrow>
             (\<exists>d. holdersToData [semaphore_handle_of item_uuid j] = Inr d
                \<and> acquire sh item_uuid j rr w =
                    (Inr True, w1\<lparr>nodes := (nodes w1)(p \<mapsto> (Some d, Suc v)),
                                  cas_log := cas_log w1 @ [(p, d, v)]\<rparr>))
           else acquire sh item_uuid j rr w = (Inr False, w1)))
     \<and> (\<forall>item_uuid j js rr w r w'.
          job_semaphore j = Some js \<and> sem_name js = n
          \<and> acquire sh item_uuid j rr w = (r, w') \<longrightarrow>
          cas_log w' = cas_log w \<or>
          (r = Inr True \<and>
           (\<exists>p d v. semaphore_path_of sh n = Inr p
              \<and> holdersToData [semaphore_handle_of item_uuid j] = Inr d
              \<and> cas_log w' = cas_log w @ [(p, d, v)]
              \<and> nodes w' p = Some (Some d, Suc v))))
     \<and> (\<forall>p h hs v w. hs \<noteq> [] \<longrightarrow> acquire_loop sh p h n hs v w = (Inr False, w))
     \<and> (\<forall>item_uuid j js rr w. job_semaphore j = Some js \<and> sem_name js = n \<longrightarrow>
          acquire sh item_uuid j rr w =
          acquire (sh\<lparr>layout_semaphores := (layout_semaphores sh)(n \<mapsto> \<lparr>sem_max = 1\<rparr>)\<rparr>)
            item_uuid j rr w)"
proof -
  have one: "max_count' sh n = 1" using assms by (simp add: max_count'_def)
  have full: "acquire_loop sh p h n hs v w = (Inr False, w)"
    if "hs \<noteq> []" for p h and hs :: "pystr list" and v w
  proof -
    from that have "1 \<le> int (length hs)" by (cases hs) simp_all
    with one show ?thesis by (simp add: acquire_loop_full)
  qed
  have same: "acquire sh item_uuid j rr w =
          acquire (sh\<lparr>layout_semaphores := (layout_semaphores sh)(n \<mapsto> \<lparr>sem_max = 1\<rparr>)\<rparr>)
            item_uuid j rr w"
    if "job_semaphore j = Some js" "sem_name js = n" for item_uuid j js rr w
    using that one by (intro acquire_cong[symmetric, of j js]) (simp_all add: max_count'_def)
  have call: "if hs = [] then
             pending w1 = [] \<longrightarrow>
             (\<exists>d. holdersToData [semaphore_handle_of item_uuid j] = Inr d
                \<and> acquire sh item_uuid j rr w =
                    (Inr True, w1\<lparr>nodes := (nodes w1)(p \<mapsto> (Some d, Suc v)),
                                  cas_log := cas_log w1 @ [(p, d, v)]\<rparr>))
           else acquire sh item_uuid j rr w = (Inr False, w1)"
    if h: "job_semaphore j = Some js \<and> sem_name js = n \<and> \<not> (resources_first js \<and> rr)
          \<and> semaphore_path_of sh n = Inr p
          \<and> getHolders p (zk_ensure_path p w) = (Inr (hs, v), w1)
          \<and> semaphore_handle_of item_uuid j \<notin> set hs"
    for item_uuid j js rr w p and hs :: "pystr list" and v w1
  proof -
    let ?h = "semaphore_handle_of item_uuid j"
    from h have nm: "sem_name js = n" by simp
    from h have enter: "acquire sh item_uuid j rr w = acquire_loop sh p ?h n hs v w1"
      using acquire_enters_loop[of j js rr sh p w hs v w1 item_uuid] by simp
    show ?thesis
    proof (cases "hs = []")
      case False
      then show ?thesis unfolding enter by (simp add: full)
    next
      case True
      have grant: "acquire sh item_uuid j rr w =
            (Inr True, w1\<lparr>nodes := (nodes w1)(p \<mapsto> (Some (map char_of (json_dumps [?h])), Suc v)),
                          cas_log := cas_log w1 @ [(p, map char_of (json_dumps [?h]), v)]\<rparr>)"
        if quiet: "pending w1 = []"
      proof -
        from h getHolders_read[of p "zk_ensure_path p w" hs v w1]
        obtain d0 where node: "nodes w1 p = Some (d0, v)" by blast
        have lt: "int (length hs) < max_count' sh n" using True one by simp
        have d: "holdersToData (hs @ [?h]) = Inr (map char_of (json_dumps [?h]))"
          unfolding True by (simp add: holdersToData_total)
        show ?thesis unfolding enter using lt d quiet node by (rule acquire_loop_grant)
      qed
      show ?thesis
        using True grant by (auto simp: holdersToData_total)
    qed
  qed
  have wrote: "cas_log w' = cas_log w \<or>
          (r = Inr True \<and>
           (\<exists>p d v. semaphore_path_of sh n = Inr p
              \<and> holdersToData [semaphore_handle_of item_uuid j] = Inr d
              \<and> cas_log w' = cas_log w @ [(p, d, v)]
              \<and> nodes w' p = Some (Some d, Suc v)))"
    if h: "job_semaphore j = Some js \<and> sem_name js = n
          \<and> acquire sh item_uuid j rr w = (r, w')"
    for item_uuid j js rr w r w'
  proof -
    from h have js: "job_semaphore j = Some js" and nm: "sem_name js = n"
      and run: "acquire sh item_uuid j rr w = (r, w')" by simp_all
    from acquire_outcome[OF js run] consider
      (quiet) "cas_log w' = cas_log w"
      | (wrote) p hs d v where "r = Inr True" "semaphore_path_of sh n = Inr p"
          "int (length hs) < max_count' sh n"
          "holdersToData (hs @ [semaphore_handle_of item_uuid j]) = Inr d"
          "cas_log w' = cas_log w @ [(p, d, v)]" "nodes w' p = Some (Some d, Suc v)"
      unfolding nm by blast
    then show ?thesis
    proof cases
      case quiet
      then show ?thesis by (rule disjI1)
    next
      case wrote
      from wrote(3) one have "hs = []" by simp
      with wrote show ?thesis by auto
    qed
  qed
  show ?thesis
    apply (intro conjI allI impI)
        apply (rule one)
       apply (erule call)
      apply (erule wrote)
     apply (erule full)
    apply (erule conjE)
    apply (erule (1) same)
    done
qed

text \<open>
  In the worked tenant the name \<^verbatim>\<open>other\<close> is not defined: the call on a store
  without the node is granted and writes the one handle; the call on a store where
  \<^verbatim>\<open>x\<close> holds the semaphore is refused; one holder is enough for the loop to refuse.
\<close>

theorem max_count_unknown_semaphore_witness:
  "layout_semaphores ex_handler (py ''other'') = None
   \<and> max_count' ex_handler (py ''other'') = 1
   \<and> acquire ex_handler (py ''u'') ex_other_job False ex_free_world = (Inr True, ex_granted_world)
   \<and> acquire ex_handler (py ''u'') ex_other_job False ex_held_world = (Inr False, ex_held_world)
   \<and> acquire_loop ex_handler ex_path ex_handle (py ''other'') [py ''x''] 1 ex_world2
        = (Inr False, ex_world2)"
proof -
  have unknown: "layout_semaphores ex_handler (py ''other'') = None"
    by (simp add: ex_handler_def ex_sem_name_def)
  note inst = max_count_unknown_semaphore[OF unknown]
  note call = inst[THEN conjunct2, THEN conjunct1, rule_format]
  have free: "job_semaphore ex_other_job = Some ex_other_js \<and> sem_name ex_other_js = py ''other''
        \<and> \<not> (resources_first ex_other_js \<and> False)
        \<and> semaphore_path_of ex_handler (py ''other'') = Inr ex_other_path
        \<and> getHolders ex_other_path (zk_ensure_path ex_other_path ex_free_world)
            = (Inr ([], 0), ex_free_world1)
        \<and> semaphore_handle_of (py ''u'') ex_other_job \<notin> set []"
    using ex_other_path_of ex_read_free by (simp add: ex_other_job_def ex_other_js_def)
  have held: "job_semaphore ex_other_job = Some ex_other_js \<and> sem_name ex_other_js = py ''other''
        \<and> \<not> (resources_first ex_other_js \<and> False)
        \<and> semaphore_path_of ex_handler (py ''other'') = Inr ex_other_path
        \<and> getHolders ex_other_path (zk_ensure_path ex_other_path ex_held_world)
            = (Inr ([py ''x''], 1), ex_held_world)
        \<and> semaphore_handle_of (py ''u'') ex_other_job \<notin> set [py ''x'']"
    using ex_other_path_of ex_read_held unfolding ex_other_handle_of
    by (simp add: ex_other_job_def ex_other_js_def ex_handle_def)
  have quiet: "pending ex_free_world1 = []"
    by (simp add: ex_free_world1_def)
  from call[OF free] quiet obtain d where
    d: "holdersToData [semaphore_handle_of (py ''u'') ex_other_job] = Inr d"
    and run: "acquire ex_handler (py ''u'') ex_other_job False ex_free_world =
                  (Inr True, ex_free_world1\<lparr>nodes := (nodes ex_free_world1)
                       (ex_other_path \<mapsto> (Some d, Suc 0)),
                     cas_log := cas_log ex_free_world1 @ [(ex_other_path, d, 0)]\<rparr>)"
    by auto
  from d have "d = ex_data_u" unfolding ex_other_handle_of using ex_to_u by simp
  with run have grant: "acquire ex_handler (py ''u'') ex_other_job False ex_free_world
      = (Inr True, ex_granted_world)"
    by (simp add: ex_free_world1_def ex_granted_world_def)
  from call[OF held]
  have refuse: "acquire ex_handler (py ''u'') ex_other_job False ex_held_world
      = (Inr False, ex_held_world)"
    by simp
  from inst have loop: "acquire_loop ex_handler ex_path ex_handle (py ''other'') [py ''x''] 1 ex_world2
        = (Inr False, ex_world2)"
    by simp
  from inst have one: "max_count' ex_handler (py ''other'') = 1" by simp
  show ?thesis
    apply (intro conjI)
        apply (rule unknown)
       apply (rule one)
      apply (rule grant)
     apply (rule refuse)
    apply (rule loop)
    done
qed
text \<open>
  Claim C2. For every change: if \<open>addChange\<close> is called with \<^verbatim>\<open>live\<close> true and
  an item of the pipeline is live and has a change equal to the one given, then
  \<open>addChange\<close> returns \<^verbatim>\<open>True\<close> and the state is the one before the call: the
  queues are unchanged, no item is made and no report is sent.
\<close>

theorem addChange_duplicate_live:
  assumes "item \<in> set (getAllItems st)" and "live item" and "equals env c (item_change item)"
  shows "addChange pl env c quiet_arg enqueue_time_arg ignore_requirements True change_queue
           history dependency_graph st = (Inr True, st)"
proof -
  have "isChangeAlreadyInPipeline env c st"
    unfolding isChangeAlreadyInPipeline_def list_ex_iff using assms by blast
  then show ?thesis by (simp add: addChange_def)
qed

text \<open>The change \<^verbatim>\<open>B\<close> is added again to the queue that holds its live item.\<close>

theorem addChange_duplicate_live_witness:
  "ex_ready_item \<in> set (getAllItems ex_live_state) \<and> live ex_ready_item
   \<and> equals ex_add_env (ex_change (py ''B'')) (item_change ex_ready_item)
   \<and> addChange ex_pipeline ex_add_env (ex_change (py ''B'')) False None False True None [] []
        ex_live_state = (Inr True, ex_live_state)"
proof -
  have 1: "ex_ready_item \<in> set (getAllItems ex_live_state)"
    by (simp add: getAllItems_def ex_live_state_def)
  have 2: "live ex_ready_item"
    by (simp add: ex_ready_item_def new_item_def)
  have 3: "equals ex_add_env (ex_change (py ''B'')) (item_change ex_ready_item)"
    by (simp add: ex_add_env_def ex_ready_item_def new_item_def)
  from addChange_duplicate_live[OF 1 2 3] 1 2 3 show ?thesis by simp
qed

text \<open>
  Claim C3. For every call of \<open>reportItem'\<close>: the result it reports is one of
  \<^verbatim>\<open>NO_JOBS\<close>, \<^verbatim>\<open>CONFIG_ERROR\<close>, \<^verbatim>\<open>MERGER_FAILURE\<close>,
  \<^verbatim>\<open>FAILURE\<close> and \<^verbatim>\<open>SUCCESS\<close>; a non-negative
  \<^verbatim>\<open>consecutive_failures\<close> stays non-negative; on \<^verbatim>\<open>SUCCESS\<close> the counter
  is set to 0; on \<^verbatim>\<open>FAILURE\<close> it grows by exactly 1 when not all jobs succeeded,
  the item was not dequeued needing a change and its bundle is not one that cannot
  merge, and is unchanged otherwise; on every other result it is unchanged. The result is
  the one \<open>reportItem_select\<close> puts on the item for the value of
  \<open>project_in_pipeline_of\<close>.
\<close>

theorem reportItem_consecutive_failures:
  assumes run: "reportItem' pl env item st = (ret, item', st')"
  shows "\<exists>pip item1 st1 action actions item2 ps2 r.
      project_in_pipeline_of pl env item st = (pip, item1, st1)
      \<and> reportItem_select pl pip item1 (pstate st) = (action, actions, item2, ps2)
      \<and> bs_result (current_build_set item2) = Some r
      \<and> r \<in> {py ''NO_JOBS'', py ''CONFIG_ERROR'', py ''MERGER_FAILURE'', py ''FAILURE'', py ''SUCCESS''}
      \<and> (0 \<le> consecutive_failures (pstate st) \<longrightarrow> 0 \<le> consecutive_failures (pstate st'))
      \<and> (r = py ''SUCCESS'' \<longrightarrow> consecutive_failures (pstate st') = 0)
      \<and> (r = py ''FAILURE'' \<longrightarrow> consecutive_failures (pstate st') =
            (if ans_didAllJobsSucceed item1 \<or> ans_wasDequeuedNeedingChange item1
                \<or> ans_cannotMergeBundle item1
             then consecutive_failures (pstate st)
             else consecutive_failures (pstate st) + 1))
      \<and> (r \<noteq> py ''SUCCESS'' \<and> r \<noteq> py ''FAILURE'' \<longrightarrow>
            consecutive_failures (pstate st') = consecutive_failures (pstate st))"
proof -
  obtain pip item1 st1 where pre: "project_in_pipeline_of pl env item st = (pip, item1, st1)"
    by (cases "project_in_pipeline_of pl env item st") auto
  obtain action actions item2 ps2 where
    sel: "reportItem_select pl pip item1 (pstate st) = (action, actions, item2, ps2)"
    by (cases "reportItem_select pl pip item1 (pstate st)") auto
  have cf: "consecutive_failures (pstate st') = consecutive_failures ps2"
    using reportItem_counter[OF run pre sel] .
  from reportItem_select_result[OF sel] obtain r where
    r: "bs_result (current_build_set item2) = Some r"
    and dom: "r \<in> {py ''NO_JOBS'', py ''CONFIG_ERROR'', py ''MERGER_FAILURE'', py ''FAILURE'', py ''SUCCESS''}"
    and succ: "r = py ''SUCCESS'' \<longrightarrow> consecutive_failures ps2 = 0"
    and fail: "r = py ''FAILURE'' \<longrightarrow> consecutive_failures ps2 =
                (if ans_didAllJobsSucceed item1 \<or> ans_wasDequeuedNeedingChange item1
                    \<or> ans_cannotMergeBundle item1
                 then consecutive_failures (pstate st) else consecutive_failures (pstate st) + 1)"
    and other: "r \<noteq> py ''SUCCESS'' \<and> r \<noteq> py ''FAILURE'' \<longrightarrow>
                consecutive_failures ps2 = consecutive_failures (pstate st)"
    by blast
  have nonneg: "0 \<le> consecutive_failures (pstate st) \<longrightarrow> 0 \<le> consecutive_failures (pstate st')"
  proof
    assume nn: "0 \<le> consecutive_failures (pstate st)"
    consider "r = py ''SUCCESS''" | "r = py ''FAILURE''"
      | "r \<noteq> py ''SUCCESS'' \<and> r \<noteq> py ''FAILURE''" by blast
    then show "0 \<le> consecutive_failures (pstate st')"
    proof cases
      case 1 with succ cf show ?thesis by simp
    next
      case 2 with fail cf nn show ?thesis by (simp split: if_splits)
    next
      case 3 with other cf nn show ?thesis by simp
    qed
  qed
  from pre sel r dom nonneg succ fail other cf show ?thesis
    by (intro exI[of _ pip] exI[of _ item1] exI[of _ st1] exI[of _ action] exI[of _ actions]
        exI[of _ item2] exI[of _ ps2] exI[of _ r]) simp
qed

text \<open>
  A live item with a failed job in an enabled pipeline: one \<^verbatim>\<open>FAILURE\<close> report,
  and the counter goes from 0 to 1.
\<close>

theorem reportItem_consecutive_failures_witness:
  "reportItem' ex_pipeline ex_report_env ex_ready_item ex_mstate =
     (ReportErrors [], setReportedResult (py ''FAILURE'') ex_ready_item,
      ex_mstate\<lparr>pstate := \<lparr>disabled = False, consecutive_failures = 1\<rparr>,
        reports := [(py ''gerrit'', setReportedResult (py ''FAILURE'') ex_ready_item)],
        sql_log := [(current_build_set (setReportedResult (py ''FAILURE'') ex_ready_item),
                     py ''failure'', True)]\<rparr>)
   \<and> bs_result (current_build_set (setReportedResult (py ''FAILURE'') ex_ready_item))
        = Some (py ''FAILURE'')
   \<and> \<not> ans_didAllJobsSucceed ex_ready_item
   \<and> consecutive_failures (pstate ex_mstate) = 0
   \<and> consecutive_failures (pstate
        (ex_mstate\<lparr>pstate := \<lparr>disabled = False, consecutive_failures = 1\<rparr>,
        reports := [(py ''gerrit'', setReportedResult (py ''FAILURE'') ex_ready_item)],
        sql_log := [(current_build_set (setReportedResult (py ''FAILURE'') ex_ready_item),
                     py ''failure'', True)]\<rparr>))
       = consecutive_failures (pstate ex_mstate) + 1"
proof -
  let ?st' = "ex_mstate\<lparr>pstate := \<lparr>disabled = False, consecutive_failures = 1\<rparr>,
        reports := [(py ''gerrit'', setReportedResult (py ''FAILURE'') ex_ready_item)],
        sql_log := [(current_build_set (setReportedResult (py ''FAILURE'') ex_ready_item),
                     py ''failure'', True)]\<rparr>"
  from reportItem_consecutive_failures[OF ex_report_run]
  obtain pip item1 st1 action actions item2 ps2 r where
    pre: "project_in_pipeline_of ex_pipeline ex_report_env ex_ready_item ex_mstate = (pip, item1, st1)"
    and sel: "reportItem_select ex_pipeline pip item1 (pstate ex_mstate) = (action, actions, item2, ps2)"
    and r: "bs_result (current_build_set item2) = Some r"
    and fail: "r = py ''FAILURE'' \<longrightarrow> consecutive_failures (pstate ?st') =
            (if ans_didAllJobsSucceed item1 \<or> ans_wasDequeuedNeedingChange item1
                \<or> ans_cannotMergeBundle item1
             then consecutive_failures (pstate ex_mstate)
             else consecutive_failures (pstate ex_mstate) + 1)"
    by blast
  from pre have p1: "pip = True" "item1 = ex_ready_item" unfolding ex_pre by simp_all
  from sel have i2: "item2 = setReportedResult (py ''FAILURE'') ex_ready_item"
    unfolding p1 ex_select by simp
  have res: "bs_result (current_build_set (setReportedResult (py ''FAILURE'') ex_ready_item))
        = Some (py ''FAILURE'')"
    by (simp add: setReportedResult_def)
  from r have rf: "r = py ''FAILURE''" unfolding i2 res by simp
  have ans: "\<not> ans_didAllJobsSucceed ex_ready_item"
    "\<not> ans_wasDequeuedNeedingChange ex_ready_item" "\<not> ans_cannotMergeBundle ex_ready_item"
    by (simp_all add: ex_ready_item_def new_item_def)
  have zero: "consecutive_failures (pstate ex_mstate) = 0"
    by (simp add: ex_mstate_def)
  from fail rf ans p1 have bump:
    "consecutive_failures (pstate ?st') = consecutive_failures (pstate ex_mstate) + 1"
    by simp
  show ?thesis
    apply (intro conjI)
        apply (rule ex_report_run)
       apply (rule res)
      apply (rule ans(1))
     apply (rule zero)
    apply (rule bump)
    done
qed




text \<open>
  Claim C6. \<open>updateCommitDependencies\<close> computes what the specification describes:
  of the \<^verbatim>\<open>Depends-On\<close> URLs of the commit message the first occurrence of each
  is kept, each is resolved through the source registered for the host of the URL,
  merged changes are dropped, of the changes found the first occurrence of each is kept,
  and the list of their cache keys is written back as \<^verbatim>\<open>commit_needs_changes\<close>
  (one call of \<^verbatim>\<open>setChangeAttributes\<close>) exactly when it differs from the list
  the change has; otherwise neither the change nor the state changes.
\<close>

theorem updateCommitDependencies_refines_spec:
  "updateCommitDependencies env c st =
     (if commit_needs_changes c \<noteq> spec_commit_needs_changes env c then
        (c\<lparr>commit_needs_changes := spec_commit_needs_changes env c\<rparr>,
         st\<lparr>change_writes := change_writes st @ [(cache_key c, spec_commit_needs_changes env c)]\<rparr>)
      else (c, st))"
  by (simp add: updateCommitDependencies_def Let_def commit_dependencies_spec)

text \<open>
  In the example the four headers give the one dependency \<^verbatim>\<open>A\<close>, which is
  written; on the change so updated a second call writes nothing.
\<close>

theorem updateCommitDependencies_refines_spec_witness:
  "updateCommitDependencies ex_dep_env ex_dependent_change ex_mstate =
     (ex_dependent_change\<lparr>commit_needs_changes := [py ''A'']\<rparr>,
      ex_mstate\<lparr>change_writes := [(py ''C'', [py ''A''])]\<rparr>)
   \<and> updateCommitDependencies ex_dep_env (ex_dependent_change\<lparr>commit_needs_changes := [py ''A'']\<rparr>)
        ex_mstate = (ex_dependent_change\<lparr>commit_needs_changes := [py ''A'']\<rparr>, ex_mstate)"
proof -
  let ?c2 = "ex_dependent_change\<lparr>commit_needs_changes := [py ''A'']\<rparr>"
  have same: "spec_commit_needs_changes ex_dep_env ?c2 = [py ''A'']"
    using ex_spec_needs by (simp add: spec_commit_needs_changes_def)
  have old: "commit_needs_changes ex_dependent_change \<noteq> [py ''A'']"
    by (simp add: ex_dependent_change_def ex_change_def)
  have key: "cache_key ex_dependent_change = py ''C''"
    by (simp add: ex_dependent_change_def ex_change_def)
  have log: "change_writes ex_mstate = []"
    by (simp add: ex_mstate_def)
  have new: "commit_needs_changes ?c2 = [py ''A'']"
    by simp
  have first: "updateCommitDependencies ex_dep_env ex_dependent_change ex_mstate =
     (ex_dependent_change\<lparr>commit_needs_changes := [py ''A'']\<rparr>,
      ex_mstate\<lparr>change_writes := [(py ''C'', [py ''A''])]\<rparr>)"
    unfolding updateCommitDependencies_refines_spec[of ex_dep_env ex_dependent_change ex_mstate]
      ex_spec_needs key log using old by simp
  have second: "updateCommitDependencies ex_dep_env ?c2 ex_mstate = (?c2, ex_mstate)"
    unfolding updateCommitDependencies_refines_spec[of ex_dep_env ?c2 ex_mstate] same new
    by simp
  show ?thesis using first second by blast
qed

text \<open>
  Claim C7, as amended. After \<open>maintainCache'\<close> has run, and so after every
  \<open>processQueue\<close> that returns, every layout uuid left in the layout cache was in
  the cache before and is the \<^verbatim>\<open>layout_uuid\<close> of an item in one of the pipeline's
  queues, live or not; an entry whose uuid no item of the pipeline has is gone.
\<close>

theorem maintainCache_layouts_of_items:
  "(\<forall>uid. uid \<in> dom (layout_cache (maintainCache' st)) \<longrightarrow>
        uid \<in> dom (layout_cache st)
        \<and> (\<exists>item\<in>set (getAllItems (maintainCache' st)). layout_uuid item = Some uid))
   \<and> (\<forall>changed st'. processQueue p st = Some (Inr (changed, st')) \<longrightarrow>
        (\<forall>uid. uid \<in> dom (layout_cache st') \<longrightarrow>
           (\<exists>item\<in>set (getAllItems st'). layout_uuid item = Some uid)))"
proof -
  have tick: "\<exists>item\<in>set (getAllItems st'). layout_uuid item = Some uid"
    if run: "processQueue p st = Some (Inr (changed, st'))"
      and uid: "uid \<in> dom (layout_cache st')" for changed st' uid
  proof -
    from processQueue_ends_with_maintainCache[OF run] obtain st1 where "st' = maintainCache' st1" ..
    with uid maintainCache_layouts_kept[of uid st1] show ?thesis by simp
  qed
  show ?thesis
    using maintainCache_layouts_kept[of _ st] tick by blast
qed

text \<open>
  In the example the layout \<^verbatim>\<open>L1\<close> of the item stays and the unused
  \<^verbatim>\<open>L2\<close> is removed.
\<close>

theorem maintainCache_layouts_of_items_witness:
  "processQueue ex_idle ex_cache_state = Some (Inr (False, maintainCache' ex_cache_state))
   \<and> py ''L1'' \<in> dom (layout_cache (maintainCache' ex_cache_state))
   \<and> py ''L1'' \<in> dom (layout_cache ex_cache_state)
   \<and> (\<exists>item\<in>set (getAllItems (maintainCache' ex_cache_state)). layout_uuid item = Some (py ''L1''))
   \<and> py ''L2'' \<notin> dom (layout_cache (maintainCache' ex_cache_state))"
proof -
  have kept: "py ''L1'' \<in> dom (layout_cache (maintainCache' ex_cache_state))"
    using ex_L1_kept by blast
  from maintainCache_layouts_of_items[of ex_cache_state ex_idle] ex_tick kept
  have "py ''L1'' \<in> dom (layout_cache ex_cache_state)
     \<and> (\<exists>item\<in>set (getAllItems (maintainCache' ex_cache_state)). layout_uuid item = Some (py ''L1''))"
    by blast
  with ex_tick kept ex_L2_gone show ?thesis by blast
qed

text \<open>
  The claim as first stated speaks of live items only. The item of the example is not
  live; after the tick its layout \<^verbatim>\<open>L1\<close> is still cached although no live
  item of the pipeline refers to it.
\<close>

theorem maintainCache_keeps_layout_of_nonlive_item:
  "processQueue ex_idle ex_cache_state = Some (Inr (False, maintainCache' ex_cache_state))
   \<and> layout_cache (maintainCache' ex_cache_state) (py ''L1'') = Some (ex_layout (py ''L1''))
   \<and> \<not> list_ex (\<lambda>item. live item \<and> layout_uuid item = Some (py ''L1''))
          (getAllItems (maintainCache' ex_cache_state))"
  using ex_tick ex_L1_kept
  by (simp add: getAllItems_maintainCache ex_items) (simp add: ex_nonlive_item_def)

subsection \<open>The value \<open>executeJobs\<close> returns\<close>

text \<open>
  Claim C8 says that \<open>executeJobs\<close> returns true exactly when
  \<open>executeJobs'\<close> was invoked. For an item with a job graph and one job to run the
  job is handed to the executor, and the call returns \<^verbatim>\<open>None\<close>, not true.
\<close>

theorem executeJobs_returns_None:
  "executeJobs ex_exec_env ex_ready_item ex_mstate
     = (None, ex_mstate\<lparr>launched := [(py ''i2'', py ''j'')]\<rparr>)"
  by (simp add: executeJobs_def ex_exec_env_def ex_ready_item_def new_item_def ex_mstate_def
      ex_run_job_def)

subsection \<open>The serialisation of the holders\<close>

text \<open>
  Claim C9, amended. The serialisation of the holders round-trips on every list of
  strings in which no high surrogate is directly followed by a low surrogate: for such a
  list \<open>h\<close>, \<open>holdersToData h\<close> returns bytes, and \<open>holdersFromData\<close> of these
  bytes is \<open>h\<close>. \<open>holdersFromData\<close> of missing data (\<^verbatim>\<open>None\<close>) and of the
  empty bytes is the empty list.
\<close>

theorem holders_round_trip:
  assumes "list_all valid_str h" and "list_all pair_free h"
  shows "(\<exists>data. holdersToData h = Inr data \<and> holdersFromData (Some data) = Inr h)
     \<and> holdersFromData None = Inr []
     \<and> holdersFromData (Some []) = Inr []"
proof -
  have "holdersFromData (Some (map char_of (json_dumps h))) = Inr h"
    using assms by (rule holders_round_trip_aux)
  then have "\<exists>data. holdersToData h = Inr data \<and> holdersFromData (Some data) = Inr h"
    by (simp add: holdersToData_total)
  moreover have "holdersFromData None = Inr []" "holdersFromData (Some []) = Inr []"
    by (simp_all add: holdersFromData_def)
  ultimately show ?thesis by simp
qed

text \<open>Four handles, with escapes of every kind and a surrogate standing alone.\<close>

theorem holders_round_trip_witness:
  "list_all valid_str ex_handles \<and> list_all pair_free ex_handles
   \<and> (\<exists>data. holdersToData ex_handles = Inr data \<and> holdersFromData (Some data) = Inr ex_handles)"
proof -
  have v: "list_all valid_str ex_handles"
    by (simp add: ex_handles_def valid_str_def valid_codepoint_def)
  have p: "list_all pair_free ex_handles"
    by (simp add: ex_handles_def is_high_def is_low_def)
  from holders_round_trip[OF v p] v p show ?thesis by simp
qed

text \<open>
  A handle of two code points, a high surrogate followed by a low one, comes back as
  the one code point \<open>0x1F600\<close>: \<^verbatim>\<open>json.dumps\<close> writes the two escapes
  \<^verbatim>\<open>\ud83d\ude00\<close>, which \<^verbatim>\<open>json.loads\<close> reads as a surrogate pair.
\<close>

theorem holders_surrogate_pair_joined:
  "valid_str [0xD83D, 0xDE00]
   \<and> holdersToData [[0xD83D, 0xDE00]] = Inr ex_pair_data
   \<and> holdersFromData (Some ex_pair_data) = Inr [[0x1F600]]"
proof -
  have 1: "valid_str [0xD83D, 0xDE00]"
    by (simp add: valid_str_def valid_codepoint_def)
  have 2: "holdersToData [[0xD83D, 0xDE00]] = Inr ex_pair_data"
    by (simp add: holdersToData_def json_dumps_def encode_basestring_ascii_def escape_char_def
      hex4_def hexdigit_def utf8_char_def ex_pair_data_def char_of_eq_iff)
  have 3: "holdersFromData (Some ex_pair_data) = Inr [[0x1F600]]"
    by (simp add: holdersFromData_def ex_pair_data_def json_loads_def skip_ws_def is_ws_def
      decode_uXXXX_def hexval_def push_or_add)
  from 1 2 3 show ?thesis by simp
qed

end
